theory Spec2Isabelle
  imports Complex_Main "HOL-Library.Word" "HOL-Library.Log_Nat"
begin

unbundle bit_operations_syntax

section \<open>Machine types\<close>

text \<open>
  The MSP430F5529 driver works on 8-bit port registers and 16-bit timer registers;
  \<open>uint_fast16_t\<close> is 16 bits wide on that processor and \<open>uint32_t\<close> is 32 bits wide.
\<close>

type_synonym u8 = "8 word"
type_synonym u16 = "16 word"
type_synonym u32 = "32 word"

section \<open>Stepper rate timer (drivers/MSP430F5529/driver.c)\<close>

text \<open>
  Bits of the Timer_A control register and of its expansion register, with the values
  the device header \<open>msp430.h\<close> gives them. \<open>ID0|ID1\<close> is the two-bit input divider
  field (bits 6 and 7), \<open>TAIDEX_n\<close> the three-bit expansion divider field.
\<close>

definition TACLR :: u16 where "TACLR = 0x0004"
definition MC0 :: u16 where "MC0 = 0x0010"
definition ID0 :: u16 where "ID0 = 0x0040"
definition ID1 :: u16 where "ID1 = 0x0080"
definition TASSEL1 :: u16 where "TASSEL1 = 0x0200"
definition TAIDEX_0 :: u16 where "TAIDEX_0 = 0"
definition TAIDEX_7 :: u16 where "TAIDEX_7 = 7"

text \<open>The three registers of the stepper timer that the rate setters write.\<close>

record stepper_timer =
  STEPPER_TIMER_CTL :: u16
  STEPPER_TIMER_EX0 :: u16
  STEPPER_TIMER_CCR0 :: u16

text \<open>
  \<open>stepperCyclesPerTick\<close>, the AMASS version: the 32-bit value of the conditional
  expression is stored into the 16-bit compare register.
\<close>

definition stepperCyclesPerTick :: "u32 \<Rightarrow> stepper_timer \<Rightarrow> stepper_timer" where
  "stepperCyclesPerTick cycles_per_tick t =
     (let t1 = t\<lparr>STEPPER_TIMER_CTL := STEPPER_TIMER_CTL t OR TACLR\<rparr>
      in t1\<lparr>STEPPER_TIMER_CCR0 :=
              ucast (if cycles_per_tick < push_bit 16 1 then cycles_per_tick else 0xFFFF)\<rparr>)"

text \<open>
  \<open>stepperCyclesPerTickPrescaled\<close>, the "normal" version. The three branches are
  written as the source has them; the third one combines the control register with
  \<open>AND\<close>, where the second one uses \<open>OR\<close>.
\<close>

definition stepperCyclesPerTickPrescaled :: "u32 \<Rightarrow> stepper_timer \<Rightarrow> stepper_timer" where
  "stepperCyclesPerTickPrescaled cycles_per_tick t =
     (let (t1, cycles) =
            (if cycles_per_tick < push_bit 16 1 then
               (t\<lparr>STEPPER_TIMER_EX0 := TAIDEX_0,
                  STEPPER_TIMER_CTL := STEPPER_TIMER_CTL t AND NOT (ID0 OR ID1)\<rparr>,
                cycles_per_tick)
             else if cycles_per_tick < push_bit 19 1 then
               (t\<lparr>STEPPER_TIMER_EX0 := TAIDEX_0,
                  STEPPER_TIMER_CTL := STEPPER_TIMER_CTL t OR (ID0 OR ID1)\<rparr>,
                drop_bit 3 cycles_per_tick)
             else
               (t\<lparr>STEPPER_TIMER_EX0 := TAIDEX_7,
                  STEPPER_TIMER_CTL := STEPPER_TIMER_CTL t AND (ID0 OR ID1)\<rparr>,
                drop_bit 6 cycles_per_tick));
          t2 = t1\<lparr>STEPPER_TIMER_CCR0 :=
                    ucast (if cycles < push_bit 16 1 then cycles else 0xFFFF)\<rparr>
      in t2\<lparr>STEPPER_TIMER_CTL := STEPPER_TIMER_CTL t2 OR (TACLR OR MC0)\<rparr>)"

text \<open>
  How the timer hardware reads the two divider fields: the input divider \<open>ID\<close> divides
  by 1, 2, 4 or 8, the expansion divider \<open>TAIDEX\<close> by 1 to 8, and the timer clock is
  divided by their product. The source's comments name the same ratios (\<open>DIV 1\<close>,
  \<open>DIV 8\<close>).
\<close>

definition timer_divisor :: "stepper_timer \<Rightarrow> nat" where
  "timer_divisor t =
     2 ^ unat (drop_bit 6 (STEPPER_TIMER_CTL t AND (ID0 OR ID1)))
       * (unat (STEPPER_TIMER_EX0 t AND 7) + 1)"

text \<open>
  The number of undivided timer clock cycles that the programmed count stands for: the
  count times the configured divider.
\<close>

definition effective_interval :: "stepper_timer \<Rightarrow> nat" where
  "effective_interval t = unat (STEPPER_TIMER_CCR0 t) * timer_divisor t"

section \<open>Limit, control and coolant signals (drivers/MSP430F5529/driver.c)\<close>

text \<open>
  \<open>axes_signals_t\<close>, \<open>control_signals_t\<close> and \<open>coolant_state_t\<close> are unions of a byte
  (\<open>value\<close>, \<open>mask\<close>) with one-bit fields; they are modelled as the byte. Assigning a
  truth value to a one-bit field sets or clears that bit of the byte.
\<close>

definition assign_bit :: "nat \<Rightarrow> bool \<Rightarrow> u8 \<Rightarrow> u8" where
  "assign_bit n b w = (if b then set_bit n w else unset_bit n w)"

text \<open>
  The axis fields \<open>x\<close>, \<open>y\<close>, \<open>z\<close> are bits 0, 1 and 2, as the source notes at
  \<open>stepperSetStepOutputs\<close> (bit0 -> X, bit1 -> Y, bit2 -> Z).
\<close>

definition X_AXIS :: nat where "X_AXIS = 0"
definition Y_AXIS :: nat where "Y_AXIS = 1"
definition Z_AXIS :: nat where "Z_AXIS = 2"

text \<open>
  The pin masks are board-specific macros of \<open>driver.h\<close>; they are parameters of
  the model.
\<close>

record limit_pins =
  X_LIMIT_PIN :: u8
  Y_LIMIT_PIN :: u8
  Z_LIMIT_PIN :: u8

text \<open>
  \<open>limitsGetState\<close>, given \<open>settings.limit_invert.value\<close> and the level read from
  \<open>LIMIT_PORT_IN\<close>.
\<close>

definition limitsGetState :: "limit_pins \<Rightarrow> u8 \<Rightarrow> u8 \<Rightarrow> u8" where
  "limitsGetState pins limit_invert LIMIT_PORT_IN =
     (let flags = LIMIT_PORT_IN;
          s0 = 0;
          s1 = assign_bit X_AXIS (flags AND X_LIMIT_PIN pins = X_LIMIT_PIN pins) s0;
          s2 = assign_bit Y_AXIS (flags AND Y_LIMIT_PIN pins = Y_LIMIT_PIN pins) s1;
          s3 = assign_bit Z_AXIS (flags AND Z_LIMIT_PIN pins = Z_LIMIT_PIN pins) s2
      in if limit_invert \<noteq> 0 then s3 XOR limit_invert else s3)"

text \<open>
  The logical map of the specification: every physical limit pin that reads high
  contributes the bit of its axis, and nothing else is set.
\<close>

definition logicalMap :: "limit_pins \<Rightarrow> u8 \<Rightarrow> u8" where
  "logicalMap pins P =
     of_bool (P AND X_LIMIT_PIN pins = X_LIMIT_PIN pins) * 2 ^ X_AXIS
     + of_bool (P AND Y_LIMIT_PIN pins = Y_LIMIT_PIN pins) * 2 ^ Y_AXIS
     + of_bool (P AND Z_LIMIT_PIN pins = Z_LIMIT_PIN pins) * 2 ^ Z_AXIS"

text \<open>
  Control pins. The pin masks are parameters, as above. The positions of the one-bit
  fields of \<open>control_signals_t\<close> within the byte are fixed by its declaration in the
  grbl core headers; the model takes them as parameters too.
\<close>

record control_pins =
  RESET_PIN :: u8
  FEED_HOLD_PIN :: u8
  CYCLE_START_PIN :: u8
  SAFETY_DOOR_PIN :: u8
  HWCONTROL_MASK :: u8

record control_fields =
  reset :: nat
  feed_hold :: nat
  cycle_start :: nat
  safety_door_ajar :: nat

text \<open>
  \<open>systemGetState\<close>, given \<open>settings.control_invert.value\<close> and the level read from
  \<open>CONTROL_PORT_IN\<close>. The \<open>if\<close>/\<open>else if\<close> chain sets one field of the zeroed
  result; the inversion mask is applied to the byte afterwards.
\<close>

definition systemGetState :: "control_pins \<Rightarrow> control_fields \<Rightarrow> u8 \<Rightarrow> u8 \<Rightarrow> u8" where
  "systemGetState pins f control_invert CONTROL_PORT_IN =
     (let flags = CONTROL_PORT_IN AND HWCONTROL_MASK pins;
          signals =
            (if flags AND RESET_PIN pins \<noteq> 0 then assign_bit (reset f) True 0
             else if flags AND SAFETY_DOOR_PIN pins \<noteq> 0
               then assign_bit (safety_door_ajar f) True 0
             else if flags AND FEED_HOLD_PIN pins \<noteq> 0 then assign_bit (feed_hold f) True 0
             else if flags AND CYCLE_START_PIN pins \<noteq> 0
               then assign_bit (cycle_start f) True 0
             else 0)
      in if control_invert \<noteq> 0 then signals XOR control_invert else signals)"

text \<open>
  An instance for concrete runs: the four control inputs on port bits 0 to 3, and the
  fields of \<open>control_signals_t\<close> in the order reset, feed hold, cycle start, safety
  door.
\<close>

definition board_control_pins :: control_pins where
  "board_control_pins =
     \<lparr>RESET_PIN = 1, FEED_HOLD_PIN = 2, CYCLE_START_PIN = 4, SAFETY_DOOR_PIN = 8,
        HWCONTROL_MASK = 15\<rparr>"

definition grbl_control_fields :: control_fields where
  "grbl_control_fields = \<lparr>reset = 0, feed_hold = 1, cycle_start = 2, safety_door_ajar = 3\<rparr>"

text \<open>The number of bits set in a signal byte.\<close>

definition bit_count :: "u8 \<Rightarrow> nat" where
  "bit_count w = length (filter (bit w) [0..<8])"

text \<open>
  Coolant outputs. \<open>COOLANT_FLOOD_OUT\<close> and \<open>COOLANT_MIST_OUT\<close> name port output
  registers and may name the same one, so the ports are a store from register
  addresses to bytes and the two macros are addresses in it. The positions of the
  \<open>flood\<close> and \<open>mist\<close> fields of \<open>coolant_state_t\<close> are parameters, like those of
  the control signals.
\<close>

type_synonym port_store = "nat \<Rightarrow> u8"

record coolant_pins =
  COOLANT_FLOOD_OUT :: nat
  COOLANT_FLOOD_PIN :: u8
  COOLANT_MIST_OUT :: nat
  COOLANT_MIST_PIN :: u8

record coolant_fields =
  flood :: nat
  mist :: nat

text \<open>\<open>coolantSetState\<close>: the mode is inverted, then each pin is set or cleared.\<close>

definition coolantSetState ::
  "coolant_pins \<Rightarrow> coolant_fields \<Rightarrow> u8 \<Rightarrow> u8 \<Rightarrow> port_store \<Rightarrow> port_store" where
  "coolantSetState pins f coolant_invert mode0 out =
     (let mode = mode0 XOR coolant_invert;
          out1 = (if bit mode (flood f)
                  then out(COOLANT_FLOOD_OUT pins :=
                             out (COOLANT_FLOOD_OUT pins) OR COOLANT_FLOOD_PIN pins)
                  else out(COOLANT_FLOOD_OUT pins :=
                             out (COOLANT_FLOOD_OUT pins) AND NOT (COOLANT_FLOOD_PIN pins)));
          out2 = (if bit mode (mist f)
                  then out1(COOLANT_MIST_OUT pins :=
                              out1 (COOLANT_MIST_OUT pins) OR COOLANT_MIST_PIN pins)
                  else out1(COOLANT_MIST_OUT pins :=
                              out1 (COOLANT_MIST_OUT pins) AND NOT (COOLANT_MIST_PIN pins)))
      in out2)"

text \<open>
  \<open>coolantGetState\<close>, given the levels read from \<open>COOLANT_FLOOD_IN\<close> and
  \<open>COOLANT_MIST_IN\<close>.
\<close>

definition coolantGetState ::
  "coolant_pins \<Rightarrow> coolant_fields \<Rightarrow> u8 \<Rightarrow> u8 \<Rightarrow> u8 \<Rightarrow> u8" where
  "coolantGetState pins f coolant_invert COOLANT_FLOOD_IN COOLANT_MIST_IN =
     (let s0 = 0;
          s1 = assign_bit (flood f) (COOLANT_FLOOD_IN AND COOLANT_FLOOD_PIN pins \<noteq> 0) s0;
          s2 = assign_bit (mist f) (COOLANT_MIST_IN AND COOLANT_MIST_PIN pins \<noteq> 0) s1
      in if coolant_invert \<noteq> 0 then s2 XOR coolant_invert else s2)"

text \<open>
  Reading the coolant state back after setting it, under the assumption that the
  input register of an output pin shows the level last written to its output register.
\<close>

definition coolant_readback ::
  "coolant_pins \<Rightarrow> coolant_fields \<Rightarrow> u8 \<Rightarrow> u8 \<Rightarrow> port_store \<Rightarrow> u8" where
  "coolant_readback pins f coolant_invert mode out =
     (let out' = coolantSetState pins f coolant_invert mode out
      in coolantGetState pins f coolant_invert
           (out' (COOLANT_FLOOD_OUT pins)) (out' (COOLANT_MIST_OUT pins)))"

text \<open>
  An instance for concrete runs: flood and mist on bits 0 and 1 of the same output
  register, and \<open>flood\<close>, \<open>mist\<close> as bits 0 and 1 of \<open>coolant_state_t\<close>.
\<close>

definition board_coolant_pins :: coolant_pins where
  "board_coolant_pins =
     \<lparr>COOLANT_FLOOD_OUT = 4, COOLANT_FLOOD_PIN = 1, COOLANT_MIST_OUT = 4,
        COOLANT_MIST_PIN = 2\<rparr>"

definition grbl_coolant_fields :: coolant_fields where
  "grbl_coolant_fields = \<lparr>flood = 0, mist = 1\<rparr>"

section \<open>Serial receive buffer (drivers/STM32F4xx/Src/serial.c)\<close>

text \<open>
  The receive ring buffer \<open>rxbuf\<close>, of type \<open>stream_rx_buffer_t\<close>. The size
  \<open>RX_BUFFER_SIZE\<close> is a configuration macro of the grbl core and a parameter of the
  model; the indices \<open>head\<close> and \<open>tail\<close> are unsigned 32-bit values
  (\<open>uint_fast16_t\<close> on the ARM target) and \<open>data\<close> is the array of
  \<open>RX_BUFFER_SIZE\<close> characters. Only the fields the two functions touch are modelled.
\<close>

record stream_rx_buffer =
  head :: u32
  tail :: u32
  data :: "u8 list"

text \<open>The ASCII control character CAN (cancel).\<close>

definition ASCII_CAN :: u8 where "ASCII_CAN = 0x18"

text \<open>
  An access to \<open>data\<close> outside the array is undefined in C; the model returns
  \<open>None\<close> there.

  \<open>serialRxCancel\<close>:
\<close>

definition serialRxCancel :: "nat \<Rightarrow> stream_rx_buffer \<Rightarrow> stream_rx_buffer option" where
  "serialRxCancel RX_BUFFER_SIZE rxbuf =
     (if unat (head rxbuf) < RX_BUFFER_SIZE \<and> RX_BUFFER_SIZE \<le> length (data rxbuf) then
        let b1 = rxbuf\<lparr>data := (data rxbuf)[unat (head rxbuf) := ASCII_CAN]\<rparr>;
            b2 = b1\<lparr>tail := head b1\<rparr>
        in Some (b2\<lparr>head := (tail b2 + 1) AND (word_of_nat RX_BUFFER_SIZE - 1)\<rparr>)
      else None)"

text \<open>
  \<open>serialGetC\<close> returns an \<open>int16_t\<close>, here a 16-bit word in which \<open>-1\<close> is
  \<open>0xFFFF\<close>. The local \<open>bptr\<close> is a \<open>uint16_t\<close>; \<open>char\<close> is unsigned on the ARM
  target, so the conversion of the character to \<open>int16_t\<close> zero-extends.
\<close>

definition serialGetC ::
  "nat \<Rightarrow> stream_rx_buffer \<Rightarrow> (u16 \<times> stream_rx_buffer) option" where
  "serialGetC RX_BUFFER_SIZE rxbuf =
     (let bptr = (ucast (tail rxbuf) :: u16)
      in if (ucast bptr :: u32) = head rxbuf then Some (- 1, rxbuf)
         else if unat bptr < RX_BUFFER_SIZE \<and> RX_BUFFER_SIZE \<le> length (data rxbuf) then
           let c = data rxbuf ! unat bptr;
               bptr' = bptr + 1
           in Some (ucast c,
                    rxbuf\<lparr>tail := (ucast bptr' :: u32) AND (word_of_nat RX_BUFFER_SIZE - 1)\<rparr>)
         else None)"

text \<open>
  \<open>serialRxCancel\<close> followed by two calls of \<open>serialGetC\<close>, with no receive
  interrupt in between: the two values read, if no access left the array.
\<close>

definition cancel_then_read :: "nat \<Rightarrow> stream_rx_buffer \<Rightarrow> (u16 \<times> u16) option" where
  "cancel_then_read RX_BUFFER_SIZE rxbuf =
     (case serialRxCancel RX_BUFFER_SIZE rxbuf of
        None \<Rightarrow> None
      | Some b1 \<Rightarrow>
          (case serialGetC RX_BUFFER_SIZE b1 of
             None \<Rightarrow> None
           | Some (c1, b2) \<Rightarrow>
               (case serialGetC RX_BUFFER_SIZE b2 of
                  None \<Rightarrow> None
                | Some (c2, b3) \<Rightarrow> Some (c1, c2))))"

section \<open>Step pulse start and spindle PWM output (drivers/MSP430F5529/driver.c)\<close>

text \<open>
  The part of the machine state that \<open>stepperPulseStart\<close> and \<open>spindleSetSpeed\<close>
  touch: the port output registers (a store, since the step, direction and spindle
  enable macros may name the same register), three timer registers, the static
  \<open>pwmEnabled\<close>, and \<open>current_pwm\<close>, the static local of \<open>stepperPulseStart\<close>. Every
  register write is also appended to \<open>io_log\<close>, which records the program order of the
  writes.
\<close>

datatype io_write =
    WritePort nat u8
  | Write_PULSE_TIMER_CTL u16
  | Write_PWM_TIMER_CCTL1 u16
  | Write_PWM_TIMER_CCR1 u16

record mcu =
  port_out :: port_store
  PULSE_TIMER_CTL :: u16
  PWM_TIMER_CCTL1 :: u16
  PWM_TIMER_CCR1 :: u16
  pwmEnabled :: bool
  current_pwm :: u16
  io_log :: "io_write list"




definition write_port :: "nat \<Rightarrow> u8 \<Rightarrow> mcu \<Rightarrow> mcu" where
  "write_port a v s = s\<lparr>port_out := (port_out s)(a := v), io_log := io_log s @ [WritePort a v]\<rparr>"













section \<open>Limit switch debounce (drivers/MSP430F5529/driver.c)\<close>

text \<open>
  The state the two interrupt handlers share: the counter \<open>debounce_count\<close>, the
  watchdog interrupt enable bit \<open>WDTIE\<close> of \<open>SFRIE1\<close>, the limit port's interrupt
  flags, and the arguments with which \<open>hal.limit_interrupt_callback\<close> has been called so
  far, in order.
\<close>

record debounce_state =
  debounce_count :: u16
  WDTIE :: bool
  LIMIT_PORT_IFG :: u8
  limit_callbacks :: "u8 list"

record debounce_config =
  software_debounce :: bool
  HWLIMIT_MASK :: u8
  limit_pin_masks :: limit_pins
  limit_invert :: u8

text \<open>
  \<open>limit_isr\<close>, given the level of the limit port when it runs. The write to
  \<open>WDTCTL\<close>, which restarts the watchdog interval, has no state in this model: the
  watchdog appears as tick events only.
\<close>

definition limit_isr :: "debounce_config \<Rightarrow> u8 \<Rightarrow> debounce_state \<Rightarrow> debounce_state" where
  "limit_isr cfg LIMIT_PORT_IN s =
     (let iflags = (ucast (LIMIT_PORT_IFG s AND HWLIMIT_MASK cfg) :: u16)
      in if iflags \<noteq> 0 then
           let s1 = s\<lparr>LIMIT_PORT_IFG := LIMIT_PORT_IFG s AND ucast (NOT iflags)\<rparr>
           in if software_debounce cfg
              then s1\<lparr>WDTIE := True, debounce_count := 3\<rparr>
              else s1\<lparr>limit_callbacks := limit_callbacks s1 @
                       [limitsGetState (limit_pin_masks cfg) (limit_invert cfg) LIMIT_PORT_IN]\<rparr>
         else s)"

text \<open>\<open>software_debounce_isr\<close>, given the level of the limit port when it runs.\<close>

definition software_debounce_isr ::
  "debounce_config \<Rightarrow> u8 \<Rightarrow> debounce_state \<Rightarrow> debounce_state" where
  "software_debounce_isr cfg LIMIT_PORT_IN s =
     (let s1 = s\<lparr>debounce_count := debounce_count s - 1\<rparr>
      in if debounce_count s1 = 0 then
           let s2 = s1\<lparr>WDTIE := False\<rparr>;
               state = limitsGetState (limit_pin_masks cfg) (limit_invert cfg) LIMIT_PORT_IN
           in if state \<noteq> 0
              then s2\<lparr>limit_callbacks := limit_callbacks s2 @ [state]\<rparr>
              else s2
         else s1)"

text \<open>
  The two interrupt sources as events. An edge on limit pins sets their interrupt flags
  and \<open>limit_isr\<close> runs (the limit pin interrupts are enabled); a watchdog interval
  elapses and \<open>software_debounce_isr\<close> runs, provided the watchdog interrupt is enabled. Both carry the level of the limit port at
  that moment. A handler runs to completion before the next event (interrupts are
  disabled inside a handler on this processor).
\<close>

datatype debounce_event = LimitEdge u8 u8 | WatchdogTick u8

fun debounce_step :: "debounce_config \<Rightarrow> debounce_state \<Rightarrow> debounce_event \<Rightarrow> debounce_state" where
  "debounce_step cfg s (LimitEdge edges level) =
     limit_isr cfg level (s\<lparr>LIMIT_PORT_IFG := LIMIT_PORT_IFG s OR edges\<rparr>)"
| "debounce_step cfg s (WatchdogTick level) =
     (if WDTIE s then software_debounce_isr cfg level s else s)"

definition debounce_run ::
  "debounce_config \<Rightarrow> debounce_event list \<Rightarrow> debounce_state \<Rightarrow> debounce_state" where
  "debounce_run cfg evs s = foldl (debounce_step cfg) s evs"

text \<open>
  A burst of bounces: each entry is an edge (flags, level) and the levels at the
  watchdog ticks that follow it before the next edge.
\<close>

fun bounce_events :: "(u8 \<times> u8 \<times> u8 list) list \<Rightarrow> debounce_event list" where
  "bounce_events [] = []"
| "bounce_events ((edges, level, ticks) # bs) =
     LimitEdge edges level # map WatchdogTick ticks @ bounce_events bs"

text \<open>
  The burst stays within the debounce window: every edge is on a configured limit pin
  and fewer than three ticks pass before the next edge.
\<close>

fun within_window :: "debounce_config \<Rightarrow> (u8 \<times> u8 \<times> u8 list) list \<Rightarrow> bool" where
  "within_window cfg [] = True"
| "within_window cfg ((edges, level, ticks) # bs) =
     (edges AND HWLIMIT_MASK cfg \<noteq> 0 \<and> length ticks < 3 \<and> within_window cfg bs)"

text \<open>
  An instance for concrete runs: software debounce enabled, the three limit pins on
  port bits 0 to 2, no inversion, and the state after reset.
\<close>

definition board_debounce :: debounce_config where
  "board_debounce =
     \<lparr>software_debounce = True, HWLIMIT_MASK = 7,
        limit_pin_masks = \<lparr>X_LIMIT_PIN = 1, Y_LIMIT_PIN = 2, Z_LIMIT_PIN = 4\<rparr>,
        limit_invert = 0\<rparr>"

definition idle_debounce :: debounce_state where
  "idle_debounce =
     \<lparr>debounce_count = 0, WDTIE = False, LIMIT_PORT_IFG = 0, limit_callbacks = []\<rparr>"

section \<open>Single-precision arithmetic\<close>

text \<open>
  The spindle code computes in \<open>float\<close> (IEEE 754 binary32, round to nearest, ties to
  even). A \<open>float\<close> is a finite number, an infinity or a NaN. The two zeros are one
  value of the model: they compare equal, and they differ only as divisors, which in this
  code are a setting, the constant 100 and the difference \<open>rpm_max - rpm_min\<close>; a
  setting of \<open>-0\<close> is therefore not modelled.
\<close>

datatype f32 = Finite real | PInf | NInf | NaN

definition pow2 :: "int \<Rightarrow> real" where
  "pow2 e = (if 0 \<le> e then 2 ^ nat e else 1 / 2 ^ nat (- e))"

text \<open>\<open>ilog2 x\<close> is the integer \<open>e\<close> with \<open>2^e \<le> x < 2^(e+1)\<close>, for positive \<open>x\<close>.\<close>

definition ilog2 :: "real \<Rightarrow> int" where
  "ilog2 x = (if 1 \<le> x then bitlen \<lfloor>x\<rfloor> - 1 else - bitlen (\<lceil>1 / x\<rceil> - 1))"

definition round_half_even :: "real \<Rightarrow> int" where
  "round_half_even x =
     (let f = \<lfloor>x\<rfloor>; d = x - of_int f
      in if d < 1 / 2 then f
         else if 1 / 2 < d then f + 1
         else if even f then f else f + 1)"

text \<open>
  The first step of rounding, as the standard describes it: the exact result is rounded
  as if the exponent had no upper bound, to 24 significant bits, or to a multiple of
  \<open>2^-149\<close> in the subnormal range.
\<close>

definition round_significand :: "real \<Rightarrow> real" where
  "round_significand x =
     (if x = 0 then 0
      else let e = max (ilog2 \<bar>x\<bar> - 23) (- 149);
               m = round_half_even (\<bar>x\<bar> / pow2 e)
           in sgn x * of_int m * pow2 e)"

text \<open>
  The second step: a rounded magnitude of \<open>2^128\<close> or more (the largest finite
  \<open>float\<close> is \<open>2^128 - 2^104\<close>) overflows to the infinity of its sign.
\<close>

definition f32_round :: "real \<Rightarrow> f32" where
  "f32_round x =
     (let r = round_significand x
      in if 2 ^ 128 \<le> r then PInf else if r \<le> - (2 ^ 128) then NInf else Finite r)"

fun is_negative :: "f32 \<Rightarrow> bool" where
  "is_negative (Finite a) = (a < 0)"
| "is_negative PInf = False"
| "is_negative NInf = True"
| "is_negative NaN = False"

text \<open>
  The operations of the code. Any operation on a NaN gives a NaN; so do
  \<open>\<infinity> * 0\<close>, \<open>\<infinity> - \<infinity>\<close>, \<open>0 / 0\<close> and \<open>\<infinity> / \<infinity>\<close>.
\<close>

fun f32_mul :: "f32 \<Rightarrow> f32 \<Rightarrow> f32" where
  "f32_mul (Finite a) (Finite b) = f32_round (a * b)"
| "f32_mul NaN b = NaN"
| "f32_mul a NaN = NaN"
| "f32_mul a b =
     (if a = Finite 0 \<or> b = Finite 0 then NaN
      else if is_negative a = is_negative b then PInf else NInf)"

fun f32_sub :: "f32 \<Rightarrow> f32 \<Rightarrow> f32" where
  "f32_sub (Finite a) (Finite b) = f32_round (a - b)"
| "f32_sub NaN b = NaN"
| "f32_sub a NaN = NaN"
| "f32_sub PInf PInf = NaN"
| "f32_sub NInf NInf = NaN"
| "f32_sub PInf b = PInf"
| "f32_sub NInf b = NInf"
| "f32_sub a PInf = NInf"
| "f32_sub a NInf = PInf"

text \<open>
  Division. A finite number divided by zero is the infinity with the sign of the
  dividend (the divisor being \<open>+0\<close>), and a finite number divided by an infinity is zero.
\<close>

fun f32_div :: "f32 \<Rightarrow> f32 \<Rightarrow> f32" where
  "f32_div (Finite a) (Finite b) =
     (if b = 0 then (if a = 0 then NaN else if 0 < a then PInf else NInf)
      else f32_round (a / b))"
| "f32_div NaN b = NaN"
| "f32_div a NaN = NaN"
| "f32_div (Finite a) b = Finite 0"
| "f32_div a (Finite b) = (if is_negative a = (b < 0) then PInf else NInf)"
| "f32_div a b = NaN"

text \<open>
  The comparisons \<open><=\<close> and \<open>==\<close> of the code (\<open>a >= b\<close> is \<open>b <= a\<close>), and
  \<open><\<close>, in which the linear region is stated: false whenever an operand is a NaN.
\<close>

fun f32_le :: "f32 \<Rightarrow> f32 \<Rightarrow> bool" where
  "f32_le (Finite a) (Finite b) = (a \<le> b)"
| "f32_le NaN b = False"
| "f32_le a NaN = False"
| "f32_le NInf b = True"
| "f32_le a PInf = True"
| "f32_le a b = False"

fun f32_lt :: "f32 \<Rightarrow> f32 \<Rightarrow> bool" where
  "f32_lt (Finite a) (Finite b) = (a < b)"
| "f32_lt NaN b = False"
| "f32_lt a NaN = False"
| "f32_lt PInf b = False"
| "f32_lt a NInf = False"
| "f32_lt a b = True"

fun f32_eq :: "f32 \<Rightarrow> f32 \<Rightarrow> bool" where
  "f32_eq NaN b = False"
| "f32_eq a NaN = False"
| "f32_eq a b = (a = b)"

text \<open>Conversion of an unsigned integer to \<open>float\<close>.\<close>

definition f32_of_nat :: "nat \<Rightarrow> f32" where
  "f32_of_nat n = f32_round (of_nat n)"

text \<open>\<open>floorf\<close>: the floor of a finite \<open>float\<close> is a \<open>float\<close>, so nothing is rounded.\<close>

fun floorf :: "f32 \<Rightarrow> f32" where
  "floorf (Finite a) = Finite (of_int \<lfloor>a\<rfloor>)"
| "floorf a = a"

text \<open>
  The cast \<open>(uint32_t)\<close> of a \<open>float\<close> drops the fraction. C leaves the cast undefined
  when the integral part is not a value of \<open>uint32_t\<close>, and for an infinity or a NaN:
  the result is \<open>None\<close> there.
\<close>

fun f32_to_u32 :: "f32 \<Rightarrow> u32 option" where
  "f32_to_u32 (Finite a) =
     (if - 1 < a \<and> a < 2 ^ 32 then Some (word_of_int (if 0 \<le> a then \<lfloor>a\<rfloor> else 0)) else None)"
| "f32_to_u32 a = None"

section \<open>Spindle PWM (drivers/MSP430F5529/driver.c)\<close>

text \<open>
  The fields of \<open>settings_t\<close> that the spindle code reads, all of type \<open>float\<close>, and
  \<open>spindle_pwm_t\<close>. The integer fields of \<open>spindle_pwm_t\<close> are modelled with the
  16 bits of \<open>uint_fast16_t\<close>, the type of the PWM value they are compared with and
  assigned to (the PWM timer registers are 16 bits wide).
\<close>

record settings_t =
  rpm_min :: f32
  rpm_max :: f32
  spindle_pwm_freq :: f32
  spindle_pwm_off_value :: f32
  spindle_pwm_min_value :: f32
  spindle_pwm_max_value :: f32

record spindle_pwm_t =
  period :: u16
  off_value :: u16
  min_value :: u16
  max_value :: u16
  pwm_gradient :: f32

text \<open>
  The part of \<open>settings_changed\<close> that derives \<open>spindle_pwm\<close> from the settings. Its
  first statement is \<open>spindle_pwm_period\<close>, the assignment
  \<open>spindle_pwm.period = (uint32_t)(3125000 / settings->spindle_pwm_freq)\<close> (the integer
  3125000 is a \<open>float\<close>); \<open>percent_of_period\<close> is the expression
  \<open>(uint32_t)(spindle_pwm.period * percentage / 100.0f)\<close>, which it evaluates for the
  off, minimum and maximum percentages. The result is \<open>None\<close> when one of the four
  casts is undefined. The difference \<open>max_value - min_value\<close> is computed in the 16
  bits of the fields and wraps around.
\<close>

definition spindle_pwm_period :: "settings_t \<Rightarrow> u16 option" where
  "spindle_pwm_period settings =
     map_option ucast (f32_to_u32 (f32_div (Finite 3125000) (spindle_pwm_freq settings)))"

definition percent_of_period :: "u16 \<Rightarrow> f32 \<Rightarrow> u16 option" where
  "percent_of_period p pct =
     map_option ucast (f32_to_u32 (f32_div (f32_mul (f32_of_nat (unat p)) pct) (Finite 100)))"

definition settings_changed :: "settings_t \<Rightarrow> spindle_pwm_t option" where
  "settings_changed settings =
     (case spindle_pwm_period settings of None \<Rightarrow> None | Some p \<Rightarrow>
      case percent_of_period p (spindle_pwm_off_value settings) of None \<Rightarrow> None | Some off \<Rightarrow>
      case percent_of_period p (spindle_pwm_min_value settings) of None \<Rightarrow> None | Some mn \<Rightarrow>
      case percent_of_period p (spindle_pwm_max_value settings) of None \<Rightarrow> None | Some mx \<Rightarrow>
        Some \<lparr>period = p, off_value = off, min_value = mn, max_value = mx,
              pwm_gradient = f32_div (f32_of_nat (unat (mx - mn)))
                               (f32_sub (rpm_max settings) (rpm_min settings))\<rparr>)"

text \<open>
  The first statement of \<open>spindleComputePWMValue\<close>: the programmed rpm scaled by the
  override percentage, \<open>rpm *= (0.010f * speed_ovr)\<close>. The constant \<open>0.010f\<close> is the
  \<open>float\<close> nearest to one hundredth.
\<close>

definition effective_rpm :: "f32 \<Rightarrow> u8 \<Rightarrow> f32" where
  "effective_rpm rpm speed_ovr =
     f32_mul rpm (f32_mul (f32_round (1 / 100)) (f32_of_nat (unat speed_ovr)))"

text \<open>
  The rest of \<open>spindleComputePWMValue\<close>, on the scaled rpm: the PWM value it returns
  and the value it stores in \<open>sys.spindle_rpm\<close>; \<open>None\<close> when the cast in the linear
  branch is undefined. The sum is computed in \<open>uint32_t\<close> and stored in the 16 bits of
  \<open>pwm_value\<close>.
\<close>

definition pwm_of_effective_rpm ::
  "settings_t \<Rightarrow> spindle_pwm_t \<Rightarrow> f32 \<Rightarrow> (u16 \<times> f32) option" where
  "pwm_of_effective_rpm settings pwm rpm =
     (if f32_le (rpm_max settings) (rpm_min settings) \<or> f32_le (rpm_max settings) rpm then
        Some (max_value pwm - 1, rpm_max settings)
      else if f32_le rpm (rpm_min settings) then
        (if f32_eq rpm (Finite 0) then Some (off_value pwm, Finite 0)
         else Some (min_value pwm, rpm_min settings))
      else
        case f32_to_u32 (floorf (f32_mul (f32_sub rpm (rpm_min settings)) (pwm_gradient pwm))) of
          None \<Rightarrow> None
        | Some q \<Rightarrow>
            let v = (ucast (q + ucast (min_value pwm)) :: u16)
            in Some (if v \<ge> max_value pwm then max_value pwm - 1 else v, rpm))"

definition spindleComputePWMValue ::
  "settings_t \<Rightarrow> spindle_pwm_t \<Rightarrow> f32 \<Rightarrow> u8 \<Rightarrow> u16 option" where
  "spindleComputePWMValue settings pwm rpm speed_ovr =
     map_option fst (pwm_of_effective_rpm settings pwm (effective_rpm rpm speed_ovr))"

text \<open>
  The linear model is usable for a configuration when the gradient is a number and not
  negative, and the interpolated value at \<open>rpm_max\<close> is a number that, increased by
  \<open>min_value\<close>, fits the 16 bits of the PWM value (so that the sum computed in
  \<open>uint32_t\<close> is stored unchanged). This makes \<open>rpm_min\<close>, \<open>rpm_max\<close> and their
  difference finite.
\<close>

definition interpolation_fits :: "settings_t \<Rightarrow> spindle_pwm_t \<Rightarrow> bool" where
  "interpolation_fits settings pwm =
     (case pwm_gradient pwm of
        Finite g \<Rightarrow>
          0 \<le> g \<and>
          (case f32_mul (f32_sub (rpm_max settings) (rpm_min settings)) (Finite g) of
             Finite m \<Rightarrow> \<lfloor>m\<rfloor> + int (unat (min_value pwm)) < 65536
           | _ \<Rightarrow> False)
      | _ \<Rightarrow> False)"

text \<open>
  Settings for concrete runs, all with a PWM frequency of 3125 Hz (a period of 1000
  units): the scenario of the specification; a range from 0 to 1000 rpm with a minimum
  PWM percentage of 0, so that \<open>min_value\<close> and \<open>off_value\<close> coincide; a misconfigured
  range with \<open>rpm_min\<close> above \<open>rpm_max\<close>; PWM percentages in the wrong order, the
  minimum at 100 and the maximum at 5; and a range from \<open>-2^127\<close> to \<open>2^127\<close>, whose
  width \<open>2^128\<close> is not a finite \<open>float\<close>.
\<close>

definition scenario_settings :: settings_t where
  "scenario_settings =
     \<lparr>rpm_min = Finite 1000, rpm_max = Finite 24000, spindle_pwm_freq = Finite 3125,
        spindle_pwm_off_value = Finite 0, spindle_pwm_min_value = Finite 5,
        spindle_pwm_max_value = Finite 100\<rparr>"

definition zero_min_settings :: settings_t where
  "zero_min_settings =
     \<lparr>rpm_min = Finite 0, rpm_max = Finite 1000, spindle_pwm_freq = Finite 3125,
        spindle_pwm_off_value = Finite 0, spindle_pwm_min_value = Finite 0,
        spindle_pwm_max_value = Finite 100\<rparr>"

definition swapped_range_settings :: settings_t where
  "swapped_range_settings =
     \<lparr>rpm_min = Finite 2000, rpm_max = Finite 1000, spindle_pwm_freq = Finite 3125,
        spindle_pwm_off_value = Finite 0, spindle_pwm_min_value = Finite 5,
        spindle_pwm_max_value = Finite 100\<rparr>"

definition swapped_percent_settings :: settings_t where
  "swapped_percent_settings =
     \<lparr>rpm_min = Finite 0, rpm_max = Finite 1000, spindle_pwm_freq = Finite 3125,
        spindle_pwm_off_value = Finite 0, spindle_pwm_min_value = Finite 100,
        spindle_pwm_max_value = Finite 5\<rparr>"

definition wide_range_settings :: settings_t where
  "wide_range_settings =
     \<lparr>rpm_min = Finite (- (2 ^ 127)), rpm_max = Finite (2 ^ 127), spindle_pwm_freq = Finite 3125,
        spindle_pwm_off_value = Finite 0, spindle_pwm_min_value = Finite 5,
        spindle_pwm_max_value = Finite 100\<rparr>"

text \<open>The configurations that \<open>settings_changed\<close> derives from these settings.\<close>

definition scenario_pwm :: spindle_pwm_t where
  "scenario_pwm =
     \<lparr>period = 1000, off_value = 0, min_value = 50, max_value = 1000,
        pwm_gradient = Finite (11087551 / 268435456)\<rparr>"

definition zero_min_pwm :: spindle_pwm_t where
  "zero_min_pwm =
     \<lparr>period = 1000, off_value = 0, min_value = 0, max_value = 1000, pwm_gradient = Finite 1\<rparr>"

definition swapped_range_pwm :: spindle_pwm_t where
  "swapped_range_pwm =
     \<lparr>period = 1000, off_value = 0, min_value = 50, max_value = 1000,
        pwm_gradient = Finite (- (15938355 / 16777216))\<rparr>"

definition swapped_percent_pwm :: spindle_pwm_t where
  "swapped_percent_pwm =
     \<lparr>period = 1000, off_value = 0, min_value = 1000, max_value = 50,
        pwm_gradient = Finite (1058177 / 16384)\<rparr>"

definition wide_range_pwm :: spindle_pwm_t where
  "wide_range_pwm =
     \<lparr>period = 1000, off_value = 0, min_value = 50, max_value = 1000, pwm_gradient = Finite 0\<rparr>"
section \<open>Properties of the rate setters\<close>

lemma ucast_u32_u16_unat:
  "unat (w :: u32) < 65536 \<Longrightarrow> unat (ucast w :: u16) = unat w"
  by (simp add: unsigned_ucast_eq take_bit_nat_eq_self)

lemma u32_less_2p16: "(w :: u32) < 65536 \<longleftrightarrow> unat w < 65536"
  by (simp add: word_less_nat_alt)

lemma u32_less_2p19: "(w :: u32) < 524288 \<longleftrightarrow> unat w < 524288"
  by (simp add: word_less_nat_alt)

lemma unat_drop_bit_u32: "unat (drop_bit n (w :: u32)) = unat w div 2 ^ n"
proof -
  have "unat (drop_bit n w) = drop_bit n (unat w)"
    by (rule unat_drop_bit_eq)
  also have "\<dots> = unat w div 2 ^ n"
    by (rule drop_bit_eq_div)
  finally show ?thesis .
qed

lemma CCR0_stepperCyclesPerTick:
  "unat (STEPPER_TIMER_CCR0 (stepperCyclesPerTick c t)) = min (unat c) 65535"
  by (simp add: stepperCyclesPerTick_def Let_def u32_less_2p16 ucast_u32_u16_unat min_def)

lemma CCR0_stepperCyclesPerTickPrescaled:
  "unat (STEPPER_TIMER_CCR0 (stepperCyclesPerTickPrescaled c t)) =
     (if unat c < 65536 then unat c
      else if unat c < 524288 then unat c div 8
      else min (unat c div 64) 65535)"
proof -
  have small: "unat c < 524288 \<Longrightarrow> unat c div 8 < 65536"
    by simp
  show ?thesis
    by (simp add: stepperCyclesPerTickPrescaled_def Let_def u32_less_2p16 u32_less_2p19
        ucast_u32_u16_unat unat_drop_bit_u32 small min_def)
qed

text \<open>
  C1. Both rate setters clamp instead of truncating. \<open>stepperCyclesPerTick\<close> programs
  the smaller of the input and \<open>0xFFFF\<close>. \<open>stepperCyclesPerTickPrescaled\<close> programs
  the input below \<open>2^16\<close>, an eighth of it below \<open>2^19\<close>, and from there on the smaller
  of a sixty-fourth of it and \<open>0xFFFF\<close>. So the programmed countdown value never exceeds
  \<open>0xFFFF\<close>, and below the first prescale threshold \<open>2^16\<close> it is the input itself.
\<close>

theorem C1_countdown_bounded:
  "unat (STEPPER_TIMER_CCR0 (stepperCyclesPerTick c t)) = min (unat c) 0xFFFF \<and>
   unat (STEPPER_TIMER_CCR0 (stepperCyclesPerTickPrescaled c t)) =
     (if unat c < 2 ^ 16 then unat c
      else if unat c < 2 ^ 19 then unat c div 8
      else min (unat c div 64) 0xFFFF) \<and>
   unat (STEPPER_TIMER_CCR0 (stepperCyclesPerTick c t)) \<le> 0xFFFF \<and>
   unat (STEPPER_TIMER_CCR0 (stepperCyclesPerTickPrescaled c t)) \<le> 0xFFFF \<and>
   (c < 2 ^ 16 \<longrightarrow>
      unat (STEPPER_TIMER_CCR0 (stepperCyclesPerTick c t)) = unat c \<and>
      unat (STEPPER_TIMER_CCR0 (stepperCyclesPerTickPrescaled c t)) = unat c)"
  unfolding CCR0_stepperCyclesPerTick CCR0_stepperCyclesPerTickPrescaled
  by (auto simp add: word_less_nat_alt min_def)

text \<open>
  Runs on the timer as \<open>driver_setup\<close> leaves it: an input below the threshold, and
  inputs that reach the clamp of each setter: 65537 and 70000 (where a truncating store
  would program 1 and 4464) and \<open>2^23\<close>.
\<close>

theorem C1_countdown_bounded_witness:
  "(1000 :: u32) < 2 ^ 16 \<and>
   unat (STEPPER_TIMER_CCR0 (stepperCyclesPerTick 1000
      \<lparr>STEPPER_TIMER_CTL = 0x0200, STEPPER_TIMER_EX0 = 0, STEPPER_TIMER_CCR0 = 0\<rparr>)) = 1000 \<and>
   unat (STEPPER_TIMER_CCR0 (stepperCyclesPerTickPrescaled 1000
      \<lparr>STEPPER_TIMER_CTL = 0x0200, STEPPER_TIMER_EX0 = 0, STEPPER_TIMER_CCR0 = 0\<rparr>)) = 1000 \<and>
   unat (STEPPER_TIMER_CCR0 (stepperCyclesPerTick 65537
      \<lparr>STEPPER_TIMER_CTL = 0x0200, STEPPER_TIMER_EX0 = 0, STEPPER_TIMER_CCR0 = 0\<rparr>)) = 65535 \<and>
   unat (STEPPER_TIMER_CCR0 (stepperCyclesPerTick 70000
      \<lparr>STEPPER_TIMER_CTL = 0x0200, STEPPER_TIMER_EX0 = 0, STEPPER_TIMER_CCR0 = 0\<rparr>)) = 65535 \<and>
   unat (STEPPER_TIMER_CCR0 (stepperCyclesPerTickPrescaled 70000
      \<lparr>STEPPER_TIMER_CTL = 0x0200, STEPPER_TIMER_EX0 = 0, STEPPER_TIMER_CCR0 = 0\<rparr>)) = 8750 \<and>
   unat (STEPPER_TIMER_CCR0 (stepperCyclesPerTickPrescaled 8388608
      \<lparr>STEPPER_TIMER_CTL = 0x0200, STEPPER_TIMER_EX0 = 0, STEPPER_TIMER_CCR0 = 0\<rparr>)) = 65535"
  using
    C1_countdown_bounded [of 1000
      "\<lparr>STEPPER_TIMER_CTL = 0x0200, STEPPER_TIMER_EX0 = 0, STEPPER_TIMER_CCR0 = 0\<rparr>"]
    C1_countdown_bounded [of 65537
      "\<lparr>STEPPER_TIMER_CTL = 0x0200, STEPPER_TIMER_EX0 = 0, STEPPER_TIMER_CCR0 = 0\<rparr>"]
    C1_countdown_bounded [of 70000
      "\<lparr>STEPPER_TIMER_CTL = 0x0200, STEPPER_TIMER_EX0 = 0, STEPPER_TIMER_CCR0 = 0\<rparr>"]
    C1_countdown_bounded [of 8388608
      "\<lparr>STEPPER_TIMER_CTL = 0x0200, STEPPER_TIMER_EX0 = 0, STEPPER_TIMER_CCR0 = 0\<rparr>"]
  by simp

subsection \<open>The prescale divider\<close>

lemma ID_field_cleared:
  "((x AND NOT (ID0 OR ID1)) OR (TACLR OR MC0)) AND (ID0 OR ID1) = 0"
  by (simp add: ID0_def ID1_def TACLR_def MC0_def bit.conj_disj_distrib2 and.assoc)

lemma ID_field_set:
  "((x OR (ID0 OR ID1)) OR (TACLR OR MC0)) AND (ID0 OR ID1) = ID0 OR ID1"
  by (simp add: ID0_def ID1_def TACLR_def MC0_def bit.conj_disj_distrib2 and.assoc)

lemma ID_field_kept:
  "((x AND (ID0 OR ID1)) OR (TACLR OR MC0)) AND (ID0 OR ID1) = x AND (ID0 OR ID1)"
  by (simp add: ID0_def ID1_def TACLR_def MC0_def bit.conj_disj_distrib2 and.assoc)

lemma CTL_stepperCyclesPerTickPrescaled:
  "STEPPER_TIMER_CTL (stepperCyclesPerTickPrescaled c t) =
     (if unat c < 65536 then STEPPER_TIMER_CTL t AND NOT (ID0 OR ID1)
      else if unat c < 524288 then STEPPER_TIMER_CTL t OR (ID0 OR ID1)
      else STEPPER_TIMER_CTL t AND (ID0 OR ID1)) OR (TACLR OR MC0)"
  by (simp add: stepperCyclesPerTickPrescaled_def Let_def u32_less_2p16 u32_less_2p19)

lemma EX0_stepperCyclesPerTickPrescaled:
  "STEPPER_TIMER_EX0 (stepperCyclesPerTickPrescaled c t) =
     (if unat c < 524288 then TAIDEX_0 else TAIDEX_7)"
  by (simp add: stepperCyclesPerTickPrescaled_def Let_def u32_less_2p16 u32_less_2p19)

text \<open>
  The divider the function leaves configured. In the first two branches it is the
  ratio the shift assumes (1 and 8). In the third branch the expansion divider is set
  to 8, but the input divider field is only masked, never set: it keeps the value it had
  before the call, so the configured ratio is 64 only if the field already held 8.
\<close>

lemma divisor_stepperCyclesPerTickPrescaled:
  "timer_divisor (stepperCyclesPerTickPrescaled c t) =
     (if unat c < 65536 then 1
      else if unat c < 524288 then 8
      else 8 * 2 ^ unat (drop_bit 6 (STEPPER_TIMER_CTL t AND (ID0 OR ID1))))"
proof -
  let ?r = "stepperCyclesPerTickPrescaled c t"
  have three: "unat (drop_bit 6 (ID0 OR ID1)) = 3"
    by (simp add: ID0_def ID1_def)
  have ex: "unat (TAIDEX_0 AND 7) = 0" "unat (TAIDEX_7 AND 7) = 7"
    by (simp_all add: TAIDEX_0_def TAIDEX_7_def)
  consider (a) "unat c < 65536" | (b) "\<not> unat c < 65536" "unat c < 524288"
    | (c) "\<not> unat c < 524288"
    by linarith
  then show ?thesis
  proof cases
    case a
    then have "STEPPER_TIMER_CTL ?r AND (ID0 OR ID1) = 0" "STEPPER_TIMER_EX0 ?r = TAIDEX_0"
      by (simp_all only: CTL_stepperCyclesPerTickPrescaled EX0_stepperCyclesPerTickPrescaled
          ID_field_cleared if_True) simp
    with a show ?thesis
      by (simp add: timer_divisor_def ex)
  next
    case b
    then have r: "STEPPER_TIMER_CTL ?r AND (ID0 OR ID1) = ID0 OR ID1"
      "STEPPER_TIMER_EX0 ?r = TAIDEX_0"
      by (simp_all only: CTL_stepperCyclesPerTickPrescaled EX0_stepperCyclesPerTickPrescaled
          ID_field_set if_True if_False)
    have "timer_divisor ?r = 2 ^ 3 * (0 + 1)"
      unfolding timer_divisor_def by (simp only: r three ex)
    with b show ?thesis
      by simp
  next
    case c
    then have c': "\<not> unat c < 65536" by simp
    from c c' have "STEPPER_TIMER_CTL ?r AND (ID0 OR ID1) = STEPPER_TIMER_CTL t AND (ID0 OR ID1)"
      "STEPPER_TIMER_EX0 ?r = TAIDEX_7"
      by (simp_all only: CTL_stepperCyclesPerTickPrescaled EX0_stepperCyclesPerTickPrescaled
          ID_field_kept if_False)
    with c c' show ?thesis
      by (simp add: timer_divisor_def ex)
  qed
qed

text \<open>
  C2. The function leaves the count unchanged below \<open>2^16\<close>, shifts it by 3 below
  \<open>2^19\<close> and by 6 otherwise (lemma \<open>CCR0_stepperCyclesPerTickPrescaled\<close>), and
  the divider it configures matches the shift in the first two branches (lemma
  \<open>divisor_stepperCyclesPerTickPrescaled\<close>). In the third branch the divider does not
  match the shift: called with \<open>2^19\<close> cycles on the timer as \<open>driver_setup\<close> and
  \<open>stepperWakeUp\<close> leave it (input divider 1), the function programs a count of
  \<open>2^19 / 64 = 8192\<close> while the configured divider is 8, so the interval is \<open>2^16\<close>
  timer clock cycles instead of the requested \<open>2^19\<close>.
\<close>

theorem C2_prescale_divisor_mismatch:
  "(let t = stepperCyclesPerTickPrescaled 524288
              \<lparr>STEPPER_TIMER_CTL = TASSEL1 OR MC0, STEPPER_TIMER_EX0 = TAIDEX_0,
                 STEPPER_TIMER_CCR0 = 0xFFFF\<rparr>
    in STEPPER_TIMER_CCR0 t = 8192 \<and> STEPPER_TIMER_EX0 t = TAIDEX_7 \<and>
       STEPPER_TIMER_CTL t = (TACLR OR MC0) \<and> timer_divisor t = 8 \<and>
       effective_interval t = 65536)"
  by (simp add: stepperCyclesPerTickPrescaled_def timer_divisor_def effective_interval_def
      TASSEL1_def MC0_def TAIDEX_0_def TAIDEX_7_def ID0_def ID1_def TACLR_def Let_def)

section \<open>Properties of the signal readers\<close>

lemma bit_assign_bit:
  "bit (assign_bit n b w) k \<longleftrightarrow> (if k = n then b \<and> n < 8 else bit w k)"
  by (auto simp add: assign_bit_def bit_simps dest: bit_imp_le_length)

lemma assign_bit_True_0: "assign_bit n True 0 = push_bit n 1"
  by (simp add: assign_bit_def set_bit_eq_or)

subsection \<open>Limit switches\<close>

text \<open>
  C4. \<open>limitsGetState\<close> returns the logical map of the raw pin pattern XOR-ed with
  the inversion mask, once (the guard on a zero mask changes nothing); XOR-ing the mask
  onto the result again gives the logical map back, and doing it twice is the identity.
\<close>

theorem C4_limits_xor_once:
  "limitsGetState pins M P = logicalMap pins P XOR M \<and>
   limitsGetState pins M P XOR M = logicalMap pins P \<and>
   (limitsGetState pins M P XOR M) XOR M = limitsGetState pins M P \<and>
   limitsGetState pins 0 P = logicalMap pins P"
  by (simp add: limitsGetState_def logicalMap_def assign_bit_def Let_def
      X_AXIS_def Y_AXIS_def Z_AXIS_def set_bit_eq_or unset_bit_eq_and_not xor.assoc)

subsection \<open>Control signals\<close>

lemma filter_eq_le1:
  assumes "distinct xs" and "\<And>k. k \<in> set xs \<Longrightarrow> P k \<Longrightarrow> k = n"
  shows "length (filter P xs) \<le> 1"
  using assms
proof (induction xs)
  case Nil
  then show ?case by simp
next
  case (Cons a xs)
  show ?case
  proof (cases "P a")
    case True
    with Cons.prems have an: "a = n" by simp
    have "\<And>k. k \<in> set xs \<Longrightarrow> \<not> P k"
    proof
      fix k assume k: "k \<in> set xs" and "P k"
      with Cons.prems(2) have "k = n" by simp
      with an k Cons.prems(1) show False by simp
    qed
    then have "filter P xs = []"
      by (simp add: filter_empty_conv)
    with True show ?thesis by simp
  next
    case False
    with Cons show ?thesis by simp
  qed
qed

lemma bit_count_le1:
  assumes "\<And>k. bit w k \<Longrightarrow> k = n"
  shows "bit_count w \<le> 1"
  unfolding bit_count_def
proof (rule filter_eq_le1)
  show "distinct [0..<8]" by simp
  show "\<And>k. k \<in> set [0..<8] \<Longrightarrow> bit w k \<Longrightarrow> k = n"
    using assms by simp
qed

lemma bit_count_push_bit: "bit_count (push_bit n 1) \<le> 1"
  by (rule bit_count_le1 [where n = n]) (simp add: bit_simps)

lemma bit_count_exp: "bit_count (2 ^ n) \<le> Suc 0"
  using bit_count_push_bit [of n] by simp

lemma bit_count_0: "bit_count 0 = 0"
  by (simp add: bit_count_def)

text \<open>The value selected by the priority chain, before the inversion mask.\<close>

lemma systemGetState_no_invert:
  "systemGetState pins f 0 raw =
     (let flags = raw AND HWCONTROL_MASK pins
      in if flags AND RESET_PIN pins \<noteq> 0 then push_bit (reset f) 1
         else if flags AND SAFETY_DOOR_PIN pins \<noteq> 0 then push_bit (safety_door_ajar f) 1
         else if flags AND FEED_HOLD_PIN pins \<noteq> 0 then push_bit (feed_hold f) 1
         else if flags AND CYCLE_START_PIN pins \<noteq> 0 then push_bit (cycle_start f) 1
         else 0)"
  by (simp add: systemGetState_def Let_def assign_bit_True_0)

lemma systemGetState_invert:
  "systemGetState pins f m raw = systemGetState pins f 0 raw XOR m"
  by (simp add: systemGetState_def Let_def)

lemma systemGetState_no_invert_count: "bit_count (systemGetState pins f 0 raw) \<le> 1"
  by (simp add: systemGetState_no_invert Let_def bit_count_exp bit_count_0)

text \<open>
  C3, as the code has it. The priority chain reset, safety door, feed hold, cycle
  start selects at most one signal, first match first; the inversion mask is then
  XOR-ed onto the selected byte. So the result differs from the inversion mask in at
  most one bit, and has at most one bit set when the mask is zero.
\<close>

theorem C3_priority_then_invert:
  "systemGetState pins f m raw = systemGetState pins f 0 raw XOR m \<and>
   bit_count (systemGetState pins f m raw XOR m) \<le> 1 \<and>
   (m = 0 \<longrightarrow> bit_count (systemGetState pins f m raw) \<le> 1) \<and>
   ((raw AND HWCONTROL_MASK pins) AND RESET_PIN pins \<noteq> 0 \<longrightarrow>
      systemGetState pins f m raw XOR m = push_bit (reset f) 1) \<and>
   ((raw AND HWCONTROL_MASK pins) AND RESET_PIN pins = 0 \<and>
    (raw AND HWCONTROL_MASK pins) AND SAFETY_DOOR_PIN pins \<noteq> 0 \<longrightarrow>
      systemGetState pins f m raw XOR m = push_bit (safety_door_ajar f) 1) \<and>
   ((raw AND HWCONTROL_MASK pins) AND RESET_PIN pins = 0 \<and>
    (raw AND HWCONTROL_MASK pins) AND SAFETY_DOOR_PIN pins = 0 \<and>
    (raw AND HWCONTROL_MASK pins) AND FEED_HOLD_PIN pins \<noteq> 0 \<longrightarrow>
      systemGetState pins f m raw XOR m = push_bit (feed_hold f) 1) \<and>
   ((raw AND HWCONTROL_MASK pins) AND RESET_PIN pins = 0 \<and>
    (raw AND HWCONTROL_MASK pins) AND SAFETY_DOOR_PIN pins = 0 \<and>
    (raw AND HWCONTROL_MASK pins) AND FEED_HOLD_PIN pins = 0 \<and>
    (raw AND HWCONTROL_MASK pins) AND CYCLE_START_PIN pins \<noteq> 0 \<longrightarrow>
      systemGetState pins f m raw XOR m = push_bit (cycle_start f) 1) \<and>
   ((raw AND HWCONTROL_MASK pins) AND RESET_PIN pins = 0 \<and>
    (raw AND HWCONTROL_MASK pins) AND SAFETY_DOOR_PIN pins = 0 \<and>
    (raw AND HWCONTROL_MASK pins) AND FEED_HOLD_PIN pins = 0 \<and>
    (raw AND HWCONTROL_MASK pins) AND CYCLE_START_PIN pins = 0 \<longrightarrow>
      systemGetState pins f m raw = m)"
proof -
  have inv: "systemGetState pins f m raw XOR m = systemGetState pins f 0 raw"
    by (simp add: systemGetState_invert [of pins f m raw] xor.assoc)
  have zero: "m = 0 \<longrightarrow> bit_count (systemGetState pins f m raw) \<le> 1"
    using systemGetState_no_invert_count by auto
  have sel: "(raw AND HWCONTROL_MASK pins) AND RESET_PIN pins \<noteq> 0 \<longrightarrow>
      systemGetState pins f 0 raw = push_bit (reset f) 1"
    "(raw AND HWCONTROL_MASK pins) AND RESET_PIN pins = 0 \<and>
     (raw AND HWCONTROL_MASK pins) AND SAFETY_DOOR_PIN pins \<noteq> 0 \<longrightarrow>
      systemGetState pins f 0 raw = push_bit (safety_door_ajar f) 1"
    "(raw AND HWCONTROL_MASK pins) AND RESET_PIN pins = 0 \<and>
     (raw AND HWCONTROL_MASK pins) AND SAFETY_DOOR_PIN pins = 0 \<and>
     (raw AND HWCONTROL_MASK pins) AND FEED_HOLD_PIN pins \<noteq> 0 \<longrightarrow>
      systemGetState pins f 0 raw = push_bit (feed_hold f) 1"
    "(raw AND HWCONTROL_MASK pins) AND RESET_PIN pins = 0 \<and>
     (raw AND HWCONTROL_MASK pins) AND SAFETY_DOOR_PIN pins = 0 \<and>
     (raw AND HWCONTROL_MASK pins) AND FEED_HOLD_PIN pins = 0 \<and>
     (raw AND HWCONTROL_MASK pins) AND CYCLE_START_PIN pins \<noteq> 0 \<longrightarrow>
      systemGetState pins f 0 raw = push_bit (cycle_start f) 1"
    "(raw AND HWCONTROL_MASK pins) AND RESET_PIN pins = 0 \<and>
     (raw AND HWCONTROL_MASK pins) AND SAFETY_DOOR_PIN pins = 0 \<and>
     (raw AND HWCONTROL_MASK pins) AND FEED_HOLD_PIN pins = 0 \<and>
     (raw AND HWCONTROL_MASK pins) AND CYCLE_START_PIN pins = 0 \<longrightarrow>
      systemGetState pins f 0 raw = 0"
    by (simp_all add: systemGetState_no_invert Let_def)
  have last: "systemGetState pins f 0 raw = 0 \<longrightarrow> systemGetState pins f m raw = m"
    by (simp add: systemGetState_invert [of pins f m raw])
  show ?thesis
    unfolding inv
    using zero sel last systemGetState_invert [of pins f m raw]
      systemGetState_no_invert_count [of pins f raw]
    by blast
qed

text \<open>
  Instances on \<open>board_control_pins\<close> and \<open>grbl_control_fields\<close>: one input per
  branch of the priority chain, with and without inversion.
\<close>

theorem C3_priority_then_invert_witness:
  "systemGetState board_control_pins grbl_control_fields 0 0x0B = 1 \<and>
   systemGetState board_control_pins grbl_control_fields 0x0F 0x0E XOR 0x0F = 8 \<and>
   systemGetState board_control_pins grbl_control_fields 0 0x06 = 2 \<and>
   systemGetState board_control_pins grbl_control_fields 0 0x04 = 4 \<and>
   systemGetState board_control_pins grbl_control_fields 0x0F 0xF0 = 0x0F \<and>
   bit_count (systemGetState board_control_pins grbl_control_fields 0 0x0B) \<le> 1"
  using
    C3_priority_then_invert [of board_control_pins grbl_control_fields 0 "0x0B"]
    C3_priority_then_invert [of board_control_pins grbl_control_fields "0x0F" "0x0E"]
    C3_priority_then_invert [of board_control_pins grbl_control_fields 0 "0x06"]
    C3_priority_then_invert [of board_control_pins grbl_control_fields 0 "0x04"]
    C3_priority_then_invert [of board_control_pins grbl_control_fields "0x0F" "0xF0"]
  by (simp add: board_control_pins_def grbl_control_fields_def systemGetState_def
      assign_bit_def set_bit_eq_or bit_count_def upt_rec)

text \<open>
  "At most one signal bit in the result" does not hold once the inversion mask is not
  zero: with all four control inputs inverted and only the reset pin high, the result is
  \<open>0x0E\<close>, which reports safety door, feed hold and cycle start together.
\<close>

theorem C3_at_most_one_bit_counterexample:
  "\<not> bit_count (systemGetState board_control_pins grbl_control_fields 0x0F 0x01) \<le> 1"
  by (simp add: systemGetState_def bit_count_def assign_bit_def upt_rec set_bit_eq_or
      board_control_pins_def grbl_control_fields_def)

subsection \<open>Coolant\<close>

lemma and_or_same: "(x OR p) AND p = (p :: u8)"
  by (simp add: bit.conj_disj_distrib2)

lemma and_not_same: "(x AND NOT p) AND p = (0 :: u8)"
  by (simp add: and.assoc)

lemma and_or_disjoint: "p AND q = 0 \<Longrightarrow> (x OR q) AND p = x AND (p :: u8)"
  by (auto simp add: bit_eq_iff bit_simps)

lemma and_not_disjoint: "p AND q = 0 \<Longrightarrow> (x AND NOT q) AND p = x AND (p :: u8)"
  by (auto simp add: bit_eq_iff bit_simps)

lemma flood_level:
  assumes "COOLANT_FLOOD_OUT pins = COOLANT_MIST_OUT pins \<Longrightarrow>
             COOLANT_FLOOD_PIN pins AND COOLANT_MIST_PIN pins = 0"
  shows "coolantSetState pins f im m out (COOLANT_FLOOD_OUT pins) AND COOLANT_FLOOD_PIN pins =
           (if bit (m XOR im) (flood f) then COOLANT_FLOOD_PIN pins else 0)"
  using assms
  by (auto simp add: coolantSetState_def Let_def and_or_same and_not_same
      and_or_disjoint and_not_disjoint)

lemma mist_level:
  "coolantSetState pins f im m out (COOLANT_MIST_OUT pins) AND COOLANT_MIST_PIN pins =
     (if bit (m XOR im) (mist f) then COOLANT_MIST_PIN pins else 0)"
  by (auto simp add: coolantSetState_def Let_def and_or_same and_not_same)

text \<open>
  C10. Setting a coolant mode and reading the state back returns the mode's flood and
  mist bits, whatever the inversion mask: the mask is XOR-ed on once when writing and
  once when reading. The pins are real pins (their masks are not zero), the two fields
  are different bits of the byte, and when flood and mist share an output register
  their pin masks do not overlap.
\<close>

theorem C10_coolant_roundtrip:
  assumes "flood f < 8" and "mist f < 8" and "flood f \<noteq> mist f"
    and "COOLANT_FLOOD_PIN pins \<noteq> 0" and "COOLANT_MIST_PIN pins \<noteq> 0"
    and "COOLANT_FLOOD_OUT pins = COOLANT_MIST_OUT pins \<Longrightarrow>
           COOLANT_FLOOD_PIN pins AND COOLANT_MIST_PIN pins = 0"
  shows "bit (coolant_readback pins f im m out) (flood f) = bit m (flood f) \<and>
         bit (coolant_readback pins f im m out) (mist f) = bit m (mist f)"
proof -
  let ?out = "coolantSetState pins f im m out"
  have fl: "(?out (COOLANT_FLOOD_OUT pins) AND COOLANT_FLOOD_PIN pins \<noteq> 0)
              = bit (m XOR im) (flood f)"
    using assms(4) flood_level [OF assms(6)] by simp
  have mi: "(?out (COOLANT_MIST_OUT pins) AND COOLANT_MIST_PIN pins \<noteq> 0)
              = bit (m XOR im) (mist f)"
    using assms(5) mist_level by simp
  show ?thesis
    unfolding coolant_readback_def coolantGetState_def Let_def fl mi
    using assms(1-3) by (auto simp add: bit_assign_bit bit_simps)
qed

theorem C10_coolant_roundtrip_witness:
  "bit (coolant_readback board_coolant_pins grbl_coolant_fields 3 1 (\<lambda>_. 0)) 0 \<and>
   \<not> bit (coolant_readback board_coolant_pins grbl_coolant_fields 3 1 (\<lambda>_. 0)) 1 \<and>
   \<not> bit (coolant_readback board_coolant_pins grbl_coolant_fields 1 2 (\<lambda>_. 0xFF)) 0 \<and>
   bit (coolant_readback board_coolant_pins grbl_coolant_fields 1 2 (\<lambda>_. 0xFF)) 1"
  using
    C10_coolant_roundtrip [where f = grbl_coolant_fields and pins = board_coolant_pins
      and im = 3 and m = 1 and out = "\<lambda>_. 0"]
    C10_coolant_roundtrip [where f = grbl_coolant_fields and pins = board_coolant_pins
      and im = 1 and m = 2 and out = "\<lambda>_. 0xFF"]
  by (simp add: board_coolant_pins_def grbl_coolant_fields_def)

section \<open>Properties of the serial receive buffer\<close>

lemma size_mask: "k \<le> 16 \<Longrightarrow> (word_of_nat (2 ^ k) - 1 :: u32) = mask k"
  by (simp add: mask_eq_exp_minus_1)

lemma unat_and_mask32: "unat ((x :: u32) AND mask k) = unat x mod 2 ^ k"
proof -
  have "x AND mask k = take_bit k x"
    by (simp add: take_bit_eq_mask)
  then have "unat (x AND mask k) = take_bit k (unat x)"
    by (simp only: unsigned_take_bit_eq)
  then show ?thesis
    by (simp only: take_bit_eq_mod)
qed

lemma unat_ucast_32_16: "unat (ucast (w :: u32) :: u16) = unat w mod 65536"
  by (simp add: unsigned_ucast_eq take_bit_eq_mod)

lemma unat_ucast_16_32: "unat (ucast (w :: u16) :: u32) = unat w"
proof -
  have "unat w < 2 ^ 16"
    using unsigned_less [of w] by simp
  then have "unat w < 2 ^ 32"
    by simp
  then show ?thesis
    by (simp add: unsigned_ucast_eq take_bit_nat_eq_self)
qed

lemma unat_u16_plus1: "unat ((w :: u16) + 1) = (unat w + 1) mod 65536"
  by (simp add: unat_word_ariths)

lemma unat_u32_plus1: "unat ((w :: u32) + 1) = (unat w + 1) mod 4294967296"
  by (simp add: unat_word_ariths)

lemma mod_pow2_mod_65536:
  assumes "k \<le> 16"
  shows "(n mod 65536) mod 2 ^ k = n mod (2 ^ k :: nat)"
proof -
  have "(2 :: nat) ^ k dvd 2 ^ 16"
    using assms by (rule le_imp_power_dvd)
  then have "(2 :: nat) ^ k dvd 65536"
    by simp
  then show ?thesis
    by (rule mod_mod_cancel)
qed

lemma succ_mod_neq:
  assumes "1 \<le> k" and "n < 2 ^ k"
  shows "(n + 1) mod 2 ^ k \<noteq> (n :: nat)"
proof (cases "n + 1 < 2 ^ k")
  case True
  then show ?thesis by simp
next
  case False
  with assms(2) have eq: "n + 1 = 2 ^ k" by simp
  from assms(1) have "(2 :: nat) ^ 1 \<le> 2 ^ k"
    by (rule power_increasing) simp
  with eq have "0 < n" by simp
  with eq show ?thesis by simp
qed

text \<open>
  C9. After \<open>serialRxCancel\<close> the buffer holds exactly the character CAN: the next
  \<open>serialGetC\<close> returns it, and the one after returns \<open>-1\<close>. This holds for every
  buffer whose \<open>head\<close> index lies inside the array (the prior \<open>tail\<close> and the prior
  contents are arbitrary), for a buffer size that is a power of two between 2 and
  \<open>2^16\<close>, which the index mask \<open>RX_BUFFER_SIZE - 1\<close> relies on.
\<close>

theorem C9_cancel_then_read:
  assumes size: "RX_BUFFER_SIZE = 2 ^ k" and k1: "1 \<le> k" and k16: "k \<le> 16"
    and len: "length (data rxbuf) = RX_BUFFER_SIZE"
    and hd: "unat (head rxbuf) < RX_BUFFER_SIZE"
  shows "cancel_then_read RX_BUFFER_SIZE rxbuf = Some (ucast ASCII_CAN, - 1) \<and>
         (ucast ASCII_CAN :: u16) \<noteq> - 1"
proof -
  let ?n = "unat (head rxbuf)"
  let ?m = "word_of_nat RX_BUFFER_SIZE - 1 :: u32"
  define b1 where "b1 = rxbuf\<lparr>data := (data rxbuf)[?n := ASCII_CAN],
    tail := head rxbuf, head := (head rxbuf + 1) AND ?m\<rparr>"
  define b2 where "b2 = b1\<lparr>tail := head b1\<rparr>"
  have m: "?m = mask k"
    using size k16 size_mask by simp
  have pow: "(2 :: nat) ^ k \<le> 2 ^ 16"
    using k16 by (rule power_increasing) simp
  have n16: "?n < 65536"
    using hd size pow by simp
  have cancel: "serialRxCancel RX_BUFFER_SIZE rxbuf = Some b1"
    using hd len by (simp add: serialRxCancel_def b1_def Let_def)
  have head1: "unat (head b1) = (?n + 1) mod 2 ^ k"
    using n16 by (simp add: b1_def m unat_and_mask32 unat_u32_plus1)
  have bptr1: "unat (ucast (tail b1) :: u16) = ?n"
    using n16 by (simp add: b1_def unat_ucast_32_16)
  have neq1: "(ucast (ucast (tail b1) :: u16) :: u32) \<noteq> head b1"
    using succ_mod_neq [OF k1, of ?n] hd size
    by (simp add: word_unat_eq_iff unat_ucast_16_32 bptr1 head1)
  have tail2: "(ucast ((ucast (tail b1) :: u16) + 1) :: u32) AND ?m = head b1"
    by (simp add: word_unat_eq_iff m unat_and_mask32 unat_ucast_16_32 unat_u16_plus1
        bptr1 head1 mod_pow2_mod_65536 [OF k16])
  have get1: "serialGetC RX_BUFFER_SIZE b1 = Some (ucast ASCII_CAN, b2)"
    using neq1 hd len tail2 bptr1
    by (simp add: serialGetC_def Let_def b2_def) (simp add: b1_def)
  have "(?n + 1) mod 2 ^ k < (2 :: nat) ^ k"
    by simp
  also have "(2 :: nat) ^ k \<le> 65536"
    using pow by simp
  finally have lt: "unat (head b1) < 65536"
    unfolding head1 .
  have "(ucast (ucast (tail b2) :: u16) :: u32) = head b2"
    using lt by (simp add: b2_def word_unat_eq_iff unat_ucast_16_32 unat_ucast_32_16)
  then have get2: "serialGetC RX_BUFFER_SIZE b2 = Some (- 1, b2)"
    by (simp add: serialGetC_def Let_def)
  show ?thesis
    by (simp add: cancel_then_read_def cancel get1 get2 ASCII_CAN_def)
qed

theorem C9_cancel_then_read_witness:
  "cancel_then_read 1024 \<lparr>head = 5, tail = 2, data = replicate 1024 0x41\<rparr>
     = Some (0x18, - 1)"
  using C9_cancel_then_read [where k = 10 and RX_BUFFER_SIZE = 1024
      and rxbuf = "\<lparr>head = 5, tail = 2, data = replicate 1024 0x41\<rparr>"]
  by (simp add: ASCII_CAN_def)

section \<open>Properties of the step pulse start\<close>

lemma io_log_write_port [simp]: "io_log (write_port a v s) = io_log s @ [WritePort a v]"
  by (simp add: write_port_def)





section \<open>Properties of the limit switch debounce\<close>

lemma debounce_run_Nil [simp]: "debounce_run cfg [] s = s"
  by (simp add: debounce_run_def)

lemma debounce_run_Cons [simp]:
  "debounce_run cfg (e # evs) s = debounce_run cfg evs (debounce_step cfg s e)"
  by (simp add: debounce_run_def)

lemma debounce_run_append:
  "debounce_run cfg (xs @ ys) s = debounce_run cfg ys (debounce_run cfg xs s)"
  by (simp add: debounce_run_def)

lemma iflags_nonzero:
  assumes "edges AND m \<noteq> (0 :: u8)"
  shows "(ucast ((ifg OR edges) AND m) :: u16) \<noteq> 0"
proof -
  have "(ifg OR edges) AND m \<noteq> 0"
  proof
    assume z: "(ifg OR edges) AND m = 0"
    have "edges AND m = ((ifg OR edges) AND m) AND edges"
      by (auto simp add: bit_eq_iff bit_simps)
    with z assms show False by simp
  qed
  then have "unat ((ifg OR edges) AND m) \<noteq> 0"
    by (simp add: unat_eq_0)
  moreover have "unat (ucast ((ifg OR edges) AND m) :: u16) = unat ((ifg OR edges) AND m)"
    by (simp add: unsigned_ucast_eq take_bit_nat_eq_self
        order_less_trans [OF unsigned_less [of "(ifg OR edges) AND m"]])
  ultimately show ?thesis
    by (auto simp add: unat_eq_0)
qed

lemma edge_arms:
  assumes "software_debounce cfg" and "edges AND HWLIMIT_MASK cfg \<noteq> 0"
  shows "WDTIE (debounce_step cfg s (LimitEdge edges level)) \<and>
         debounce_count (debounce_step cfg s (LimitEdge edges level)) = 3 \<and>
         limit_callbacks (debounce_step cfg s (LimitEdge edges level)) = limit_callbacks s"
  using assms iflags_nonzero [OF assms(2), of "LIMIT_PORT_IFG s"]
  by (simp add: limit_isr_def Let_def)

lemma tick_not_last:
  assumes "debounce_count s \<noteq> 1"
  shows "software_debounce_isr cfg level s = s\<lparr>debounce_count := debounce_count s - 1\<rparr>"
  using assms by (simp add: software_debounce_isr_def Let_def)

lemma tick_last:
  assumes "debounce_count s = 1"
  shows "software_debounce_isr cfg level s =
     (let S = limitsGetState (limit_pin_masks cfg) (limit_invert cfg) level
      in s\<lparr>debounce_count := 0, WDTIE := False,
            limit_callbacks := limit_callbacks s @ (if S \<noteq> 0 then [S] else [])\<rparr>)"
  using assms by (simp add: software_debounce_isr_def Let_def)

lemma tick_disabled:
  assumes "\<not> WDTIE s"
  shows "debounce_run cfg (map WatchdogTick levels) s = s"
  using assms by (induction levels) simp_all

lemma length_less_3_cases:
  assumes "length xs < 3"
  obtains "xs = []" | a where "xs = [a]" | a b where "xs = [a, b]"
proof (cases xs)
  case Nil
  then show ?thesis using that by simp
next
  case outer: (Cons a ys)
  show ?thesis
  proof (cases ys)
    case Nil
    with outer show ?thesis using that by simp
  next
    case (Cons b zs)
    with assms outer have "zs = []" by simp
    with Cons outer show ?thesis using that by simp
  qed
qed

text \<open>Fewer than three ticks after an edge leave the window open.\<close>

lemma ticks_within_window:
  assumes "WDTIE s" and "debounce_count s = 3" and "length ticks < 3"
  shows "WDTIE (debounce_run cfg (map WatchdogTick ticks) s) \<and>
         limit_callbacks (debounce_run cfg (map WatchdogTick ticks) s) = limit_callbacks s"
  using assms(3)
proof (cases ticks rule: length_less_3_cases)
  case 1
  with assms show ?thesis by simp
next
  case (2 a)
  with assms show ?thesis by (simp add: tick_not_last)
next
  case (3 a b)
  with assms show ?thesis by (simp add: tick_not_last)
qed

lemma burst_no_callback:
  assumes "software_debounce cfg" and "within_window cfg bs"
  shows "limit_callbacks (debounce_run cfg (bounce_events bs) s) = limit_callbacks s"
  using assms(2)
proof (induction bs arbitrary: s)
  case Nil
  then show ?case by simp
next
  case (Cons b bs)
  obtain edges level ticks where b: "b = (edges, level, ticks)"
    by (cases b)
  let ?s1 = "debounce_step cfg s (LimitEdge edges level)"
  let ?s2 = "debounce_run cfg (map WatchdogTick ticks) ?s1"
  from Cons.prems b have e: "edges AND HWLIMIT_MASK cfg \<noteq> 0" and t: "length ticks < 3"
    and w: "within_window cfg bs"
    by simp_all
  from edge_arms [OF assms(1) e, of s level]
  have s1: "WDTIE ?s1" "debounce_count ?s1 = 3" "limit_callbacks ?s1 = limit_callbacks s"
    by simp_all
  from ticks_within_window [OF s1(1) s1(2) t, of cfg]
  have s2: "limit_callbacks ?s2 = limit_callbacks s"
    using s1(3) by simp
  have "debounce_run cfg (bounce_events (b # bs)) s = debounce_run cfg (bounce_events bs) ?s2"
    unfolding b by (simp add: debounce_run_append del: debounce_step.simps)
  with Cons.IH [OF w, of ?s2] s2 show ?case
    by simp
qed

lemma settle:
  assumes "software_debounce cfg" and "edges AND HWLIMIT_MASK cfg \<noteq> 0"
  shows "debounce_run cfg [LimitEdge edges level, WatchdogTick l1, WatchdogTick l2, WatchdogTick l3] s =
     (let S = limitsGetState (limit_pin_masks cfg) (limit_invert cfg) l3;
          s1 = debounce_step cfg s (LimitEdge edges level)
      in s1\<lparr>debounce_count := 0, WDTIE := False,
            limit_callbacks := limit_callbacks s @ (if S \<noteq> 0 then [S] else [])\<rparr>)"
proof -
  let ?s1 = "debounce_step cfg s (LimitEdge edges level)"
  from edge_arms [OF assms, of s level]
  have s1: "WDTIE ?s1" "debounce_count ?s1 = 3" "limit_callbacks ?s1 = limit_callbacks s"
    by simp_all
  have "debounce_run cfg [WatchdogTick l1, WatchdogTick l2, WatchdogTick l3] ?s1 =
     (let S = limitsGetState (limit_pin_masks cfg) (limit_invert cfg) l3
      in ?s1\<lparr>debounce_count := 0, WDTIE := False,
            limit_callbacks := limit_callbacks s @ (if S \<noteq> 0 then [S] else [])\<rparr>)"
    using s1 by (simp add: tick_not_last tick_last Let_def)
  then show ?thesis
    by (simp add: Let_def del: debounce_step.simps)
qed

text \<open>
  C7. With software debounce enabled, a burst of edges on configured limit pins in which
  fewer than three watchdog ticks separate consecutive edges, followed by one more edge
  and three ticks, invokes the limit callback exactly once if the state sampled at the
  third tick is not zero, with that state, and not at all if it is zero; this holds from
  every prior state. The watchdog interrupt is disabled afterwards, so later ticks do
  nothing.
\<close>

theorem C7_debounce_single_callback:
  assumes "software_debounce cfg" and "within_window cfg bounces"
    and "edges AND HWLIMIT_MASK cfg \<noteq> 0"
  shows
    "(let s' = debounce_run cfg
                 (bounce_events bounces @
                  [LimitEdge edges level, WatchdogTick l1, WatchdogTick l2, WatchdogTick l3]) s;
          S = limitsGetState (limit_pin_masks cfg) (limit_invert cfg) l3
      in limit_callbacks s' = limit_callbacks s @ (if S \<noteq> 0 then [S] else []) \<and>
         \<not> WDTIE s' \<and>
         debounce_run cfg (map WatchdogTick later) s' = s')"
proof -
  let ?s0 = "debounce_run cfg (bounce_events bounces) s"
  let ?s' = "debounce_run cfg
                 [LimitEdge edges level, WatchdogTick l1, WatchdogTick l2, WatchdogTick l3] ?s0"
  have cb: "limit_callbacks ?s0 = limit_callbacks s"
    by (rule burst_no_callback [OF assms(1) assms(2)])
  have st: "limit_callbacks ?s' = limit_callbacks s @
       (if limitsGetState (limit_pin_masks cfg) (limit_invert cfg) l3 \<noteq> 0
        then [limitsGetState (limit_pin_masks cfg) (limit_invert cfg) l3] else [])"
    and off: "\<not> WDTIE ?s'"
    unfolding settle [OF assms(1) assms(3)] by (simp_all add: Let_def cb)
  from off have "debounce_run cfg (map WatchdogTick later) ?s' = ?s'"
    by (rule tick_disabled)
  with st off show ?thesis
    by (simp add: debounce_run_append Let_def del: debounce_run_Cons)
qed

theorem C7_debounce_single_callback_witness:
  "limit_callbacks (debounce_run board_debounce
      (bounce_events [(1, 1, [0]), (1, 0, [1, 0]), (1, 1, [])] @
       [LimitEdge 1 1, WatchdogTick 1, WatchdogTick 1, WatchdogTick 1]) idle_debounce) = [1] \<and>
   limit_callbacks (debounce_run board_debounce
      (bounce_events [(1, 1, [0]), (1, 0, [1, 0]), (1, 1, [])] @
       [LimitEdge 1 0, WatchdogTick 1, WatchdogTick 1, WatchdogTick 0]) idle_debounce) = []"
  using
    C7_debounce_single_callback [where cfg = board_debounce
      and bounces = "[(1, 1, [0]), (1, 0, [1, 0]), (1, 1, [])]" and edges = 1 and level = 1
      and ?l1.0 = 1 and ?l2.0 = 1 and ?l3.0 = 1 and s = idle_debounce and later = "[]"]
    C7_debounce_single_callback [where cfg = board_debounce
      and bounces = "[(1, 1, [0]), (1, 0, [1, 0]), (1, 1, [])]" and edges = 1 and level = 0
      and ?l1.0 = 1 and ?l2.0 = 1 and ?l3.0 = 0 and s = idle_debounce and later = "[]"]
  by (simp add: board_debounce_def idle_debounce_def Let_def limitsGetState_def
      assign_bit_def X_AXIS_def Y_AXIS_def Z_AXIS_def set_bit_eq_or unset_bit_eq_and_not)

section \<open>Properties of the single-precision rounding\<close>

lemma pow2_powr: "pow2 e = 2 powr (of_int e)"
proof (cases "0 \<le> e")
  case True
  then show ?thesis
    by (simp add: pow2_def powr_realpow [symmetric])
next
  case False
  then have "(2 :: real) powr (of_int e) = 1 / 2 powr (of_int (- e))"
    by (simp add: powr_minus field_simps)
  also have "\<dots> = 1 / 2 ^ nat (- e)"
    using False by (simp add: powr_realpow [symmetric])
  finally show ?thesis
    using False by (simp add: pow2_def)
qed

lemma pow2_pos: "0 < pow2 e"
  by (simp add: pow2_powr)

lemma pow2_add: "pow2 (a + b) = pow2 a * pow2 b"
  by (simp add: pow2_powr powr_add)

lemma pow2_mono: "a \<le> b \<Longrightarrow> pow2 a \<le> pow2 b"
  by (simp add: pow2_powr)

lemma pow2_nat: "0 \<le> e \<Longrightarrow> pow2 e = of_int (2 ^ nat e)"
  by (simp add: pow2_def)

lemma ilog2_bounds:
  assumes "0 < x"
  shows "pow2 (ilog2 x) \<le> x \<and> x < pow2 (ilog2 x + 1)"
proof (cases "1 \<le> x")
  case True
  let ?n = "\<lfloor>x\<rfloor>"
  from True have n: "0 < ?n" by simp
  from bitlen_bounds [OF n] have lo: "2 ^ nat (bitlen ?n - 1) \<le> ?n" and hi: "?n < 2 ^ nat (bitlen ?n)"
    by simp_all
  from n have b: "1 \<le> bitlen ?n"
    by (simp add: bitlen_alt_def)
  have "pow2 (bitlen ?n - 1) = of_int (2 ^ nat (bitlen ?n - 1))"
    using b by (simp add: pow2_nat)
  also have "\<dots> \<le> of_int ?n"
    using lo by (simp only: of_int_le_iff)
  also have "\<dots> \<le> x" by simp
  finally have 1: "pow2 (bitlen ?n - 1) \<le> x" .
  have "?n + 1 \<le> 2 ^ nat (bitlen ?n)"
    using hi by simp
  then have "of_int (?n + 1) \<le> (of_int (2 ^ nat (bitlen ?n)) :: real)"
    by (simp only: of_int_le_iff)
  moreover have "x < of_int (?n + 1)"
    by simp
  ultimately have "x < of_int (2 ^ nat (bitlen ?n))"
    by linarith
  also have "\<dots> = pow2 (bitlen ?n)"
    using b by (simp add: pow2_nat)
  finally have 2: "x < pow2 (bitlen ?n - 1 + 1)" by simp
  from True 1 2 show ?thesis
    by (simp add: ilog2_def)
next
  case False
  let ?c = "\<lceil>1 / x\<rceil>"
  from False assms have y: "1 < 1 / x" by simp
  then have c2: "2 \<le> ?c" by linarith
  then have n: "0 < ?c - 1" by simp
  let ?b = "bitlen (?c - 1)"
  from bitlen_bounds [OF n] have lo: "2 ^ nat (?b - 1) \<le> ?c - 1" and hi: "?c - 1 < 2 ^ nat ?b"
    by simp_all
  from n have b: "1 \<le> ?b"
    by (simp add: bitlen_alt_def)
  have "1 / x \<le> of_int ?c" by simp
  also have "of_int ?c \<le> (of_int (2 ^ nat ?b) :: real)"
    using hi by (simp only: of_int_le_iff)
  finally have "1 / x \<le> 2 ^ nat ?b" by simp
  then have "1 / 2 ^ nat ?b \<le> x"
    using assms by (simp add: field_simps)
  then have 1: "pow2 (- ?b) \<le> x"
    using b by (simp add: pow2_def)
  have "(of_int (2 ^ nat (?b - 1)) :: real) \<le> of_int (?c - 1)"
    using lo by (simp only: of_int_le_iff)
  also have "of_int (?c - 1) < 1 / x"
    by linarith
  finally have lt: "2 ^ nat (?b - 1) < 1 / x" by simp
  then have "x < 1 / 2 ^ nat (?b - 1)"
    using assms by (simp add: field_simps)
  moreover have "pow2 (- ?b + 1) = 1 / 2 ^ nat (?b - 1)"
  proof (cases "?b = 1")
    case True
    then show ?thesis by (simp add: pow2_def)
  next
    case False
    with b have "- ?b + 1 < 0" by simp
    then show ?thesis by (simp add: pow2_def) 
  qed
  ultimately have 2: "x < pow2 (- ?b + 1)" by simp
  from False 1 2 show ?thesis
    by (simp add: ilog2_def)
qed

lemma ilog2_mono:
  assumes "0 < x" and "x \<le> y"
  shows "ilog2 x \<le> ilog2 y"
proof (rule ccontr)
  assume "\<not> ilog2 x \<le> ilog2 y"
  then have "ilog2 y + 1 \<le> ilog2 x" by simp
  then have "pow2 (ilog2 y + 1) \<le> pow2 (ilog2 x)" by (rule pow2_mono)
  also have "\<dots> \<le> x" using ilog2_bounds [OF assms(1)] by simp
  also have "\<dots> \<le> y" by (rule assms(2))
  also have "\<dots> < pow2 (ilog2 y + 1)"
    using ilog2_bounds [of y] assms by simp
  finally show False by simp
qed


lemma round_half_even_of_int: "round_half_even (of_int n) = n"
  by (simp add: round_half_even_def)

lemma round_half_even_cases:
  "round_half_even x = \<lfloor>x\<rfloor> \<or> round_half_even x = \<lfloor>x\<rfloor> + 1"
  by (simp add: round_half_even_def Let_def)

lemma round_half_even_mono:
  assumes "x \<le> y"
  shows "round_half_even x \<le> round_half_even y"
proof (cases "\<lfloor>x\<rfloor> = \<lfloor>y\<rfloor>")
  case True
  from assms have "x - of_int \<lfloor>x\<rfloor> \<le> y - of_int \<lfloor>x\<rfloor>" by simp
  with True show ?thesis
    by (auto simp add: round_half_even_def Let_def)
next
  case False
  with assms have "\<lfloor>x\<rfloor> < \<lfloor>y\<rfloor>"
    using floor_mono [OF assms] by simp
  then have "\<lfloor>x\<rfloor> + 1 \<le> \<lfloor>y\<rfloor>" by simp
  moreover have "round_half_even x \<le> \<lfloor>x\<rfloor> + 1"
    using round_half_even_cases [of x] by auto
  moreover have "\<lfloor>y\<rfloor> \<le> round_half_even y"
    using round_half_even_cases [of y] by auto
  ultimately show ?thesis by linarith
qed

lemma round_half_even_nonneg: "0 \<le> x \<Longrightarrow> 0 \<le> round_half_even x"
  using round_half_even_mono [of 0 x] round_half_even_of_int [of 0] by simp

text \<open>The exponent of the unit in the last place, and the rounding of a positive number.\<close>

lemma round_significand_pos:
  assumes "0 < x"
  shows "round_significand x =
           of_int (round_half_even (x / pow2 (max (ilog2 x - 23) (- 149))))
             * pow2 (max (ilog2 x - 23) (- 149))"
  using assms by (simp add: round_significand_def Let_def)

lemma round_significand_zero: "round_significand 0 = 0"
  by (simp add: round_significand_def)

lemma round_significand_minus: "round_significand (- x) = - round_significand x"
  by (simp add: round_significand_def Let_def sgn_minus)

lemma round_significand_nonneg:
  assumes "0 \<le> x"
  shows "0 \<le> round_significand x"
proof (cases "x = 0")
  case True
  then show ?thesis by (simp add: round_significand_zero)
next
  case False
  with assms have x: "0 < x" by simp
  have "0 \<le> x / pow2 (max (ilog2 x - 23) (- 149))"
    using x pow2_pos [of "max (ilog2 x - 23) (- 149)"] by simp
  then have "0 \<le> round_half_even (x / pow2 (max (ilog2 x - 23) (- 149)))"
    by (rule round_half_even_nonneg)
  then show ?thesis
    using pow2_pos [of "max (ilog2 x - 23) (- 149)"]
    by (simp add: round_significand_pos [OF x])
qed

lemma pow2_diff: "pow2 (a - b) = pow2 a / pow2 b"
  using pow2_add [of "a - b" b] pow2_pos [of b] by (simp add: field_simps)

lemma round_significand_le_pow2:
  assumes x: "0 < x" and lt: "x \<le> pow2 E" and d: "max (ilog2 x - 23) (- 149) \<le> E"
  shows "round_significand x \<le> pow2 E"
proof -
  let ?e = "max (ilog2 x - 23) (- 149)"
  have p: "0 < pow2 ?e" by (rule pow2_pos)
  have "x / pow2 ?e \<le> pow2 E / pow2 ?e"
    using lt p by (simp add: divide_right_mono)
  also have "\<dots> = pow2 (E - ?e)"
    by (simp only: pow2_diff)
  also have "\<dots> = of_int (2 ^ nat (E - ?e))"
    using d by (simp add: pow2_nat)
  finally have "round_half_even (x / pow2 ?e) \<le> round_half_even (of_int (2 ^ nat (E - ?e)))"
    by (rule round_half_even_mono)
  then have "round_half_even (x / pow2 ?e) \<le> 2 ^ nat (E - ?e)"
    by (simp only: round_half_even_of_int)
  then have "(of_int (round_half_even (x / pow2 ?e)) :: real) \<le> of_int (2 ^ nat (E - ?e))"
    by (simp only: of_int_le_iff)
  then have "of_int (round_half_even (x / pow2 ?e)) * pow2 ?e \<le> of_int (2 ^ nat (E - ?e)) * pow2 ?e"
    using p by (simp only: mult_le_cancel_right_pos)
  also have "of_int (2 ^ nat (E - ?e)) * pow2 ?e = pow2 (E - ?e) * pow2 ?e"
    using d by (simp add: pow2_nat)
  also have "\<dots> = pow2 E"
    using pow2_add [of "E - ?e" ?e] by simp
  finally show ?thesis
    by (simp only: round_significand_pos [OF x])
qed

lemma round_significand_ge_pow2:
  assumes x: "0 < x" and ge: "pow2 E \<le> x" and d: "max (ilog2 x - 23) (- 149) \<le> E"
  shows "pow2 E \<le> round_significand x"
proof -
  let ?e = "max (ilog2 x - 23) (- 149)"
  have p: "0 < pow2 ?e" by (rule pow2_pos)
  have "of_int (2 ^ nat (E - ?e)) = pow2 (E - ?e)"
    using d by (simp add: pow2_nat)
  also have "\<dots> = pow2 E / pow2 ?e"
    by (simp only: pow2_diff)
  also have "\<dots> \<le> x / pow2 ?e"
    using ge p by (simp add: divide_right_mono)
  finally have "round_half_even (of_int (2 ^ nat (E - ?e))) \<le> round_half_even (x / pow2 ?e)"
    by (rule round_half_even_mono)
  then have "2 ^ nat (E - ?e) \<le> round_half_even (x / pow2 ?e)"
    by (simp only: round_half_even_of_int)
  then have "(of_int (2 ^ nat (E - ?e)) :: real) \<le> of_int (round_half_even (x / pow2 ?e))"
    by (simp only: of_int_le_iff)
  then have "of_int (2 ^ nat (E - ?e)) * pow2 ?e \<le> of_int (round_half_even (x / pow2 ?e)) * pow2 ?e"
    using p by (simp only: mult_le_cancel_right_pos)
  moreover have "of_int (2 ^ nat (E - ?e)) * pow2 ?e = pow2 (E - ?e) * pow2 ?e"
    using d by (simp add: pow2_nat)
  moreover have "pow2 (E - ?e) * pow2 ?e = pow2 E"
    using pow2_add [of "E - ?e" ?e] by simp
  ultimately show ?thesis
    by (simp only: round_significand_pos [OF x])
qed

lemma max_less_max:
  fixes a b c :: int
  assumes "max a c < max b c"
  shows "max b c = b \<and> a < b"
  using assms by (auto simp add: max_def split: if_splits)

lemma round_significand_mono_pos:
  assumes x: "0 < x" and xy: "x \<le> y"
  shows "round_significand x \<le> round_significand y"
proof -
  let ?ex = "max (ilog2 x - 23) (- 149)"
  let ?ey = "max (ilog2 y - 23) (- 149)"
  from x xy have y: "0 < y" by simp
  have il: "ilog2 x \<le> ilog2 y"
    by (rule ilog2_mono [OF x xy])
  then have le: "?ex \<le> ?ey" by simp
  show ?thesis
  proof (cases "?ex = ?ey")
    case True
    have p: "0 < pow2 ?ex" by (rule pow2_pos)
    have "x / pow2 ?ex \<le> y / pow2 ?ex"
      using xy p by (simp add: divide_right_mono)
    then have "round_half_even (x / pow2 ?ex) \<le> round_half_even (y / pow2 ?ex)"
      by (rule round_half_even_mono)
    then have "(of_int (round_half_even (x / pow2 ?ex)) :: real)
                 \<le> of_int (round_half_even (y / pow2 ?ex))"
      by (simp only: of_int_le_iff)
    then have "of_int (round_half_even (x / pow2 ?ex)) * pow2 ?ex
                 \<le> of_int (round_half_even (y / pow2 ?ex)) * pow2 ?ex"
      using p by (simp only: mult_le_cancel_right_pos)
    then show ?thesis
      unfolding round_significand_pos [OF x] round_significand_pos [OF y] True [symmetric] .
  next
    case False
    let ?E = "ilog2 y"
    from le False have lt: "?ex < ?ey"
      by (rule order_le_neq_trans)
    from max_less_max [OF lt] have ey: "?ey = ?E - 23" and "ilog2 x - 23 < ?E - 23"
      by simp_all
    then have step: "ilog2 x + 1 \<le> ?E" by linarith
    have "x < pow2 (ilog2 x + 1)"
      using ilog2_bounds [OF x] by simp
    also have "\<dots> \<le> pow2 ?E"
      using step by (rule pow2_mono)
    finally have xE: "x \<le> pow2 ?E" by simp
    have dx: "?ex \<le> ?E" using lt ey by simp
    have dy: "?ey \<le> ?E" using ey by simp
    have yE: "pow2 ?E \<le> y"
      using ilog2_bounds [OF y] by simp
    have "round_significand x \<le> pow2 ?E"
      by (rule round_significand_le_pow2 [OF x xE dx])
    also have "\<dots> \<le> round_significand y"
      by (rule round_significand_ge_pow2 [OF y yE dy])
    finally show ?thesis .
  qed
qed

text \<open>Rounding to nearest is monotone.\<close>

lemma round_significand_mono:
  assumes "x \<le> y"
  shows "round_significand x \<le> round_significand y"
proof -
  consider (pos) "0 < x" | (mixed) "x \<le> 0" "0 \<le> y" | (neg) "y < 0"
    using assms by linarith
  then show ?thesis
  proof cases
    case pos
    then show ?thesis using assms by (rule round_significand_mono_pos)
  next
    case mixed
    have "round_significand x \<le> 0"
      using round_significand_nonneg [of "- x"] mixed(1) by (simp add: round_significand_minus)
    also have "0 \<le> round_significand y"
      using mixed(2) by (rule round_significand_nonneg)
    finally show ?thesis .
  next
    case neg
    then have "0 < - y" and "- y \<le> - x"
      using assms by simp_all
    then have "round_significand (- y) \<le> round_significand (- x)"
      by (rule round_significand_mono_pos)
    then show ?thesis
      by (simp add: round_significand_minus)
  qed
qed

text \<open>The rounding error, and numbers that are not changed.\<close>

lemma round_half_even_upper: "of_int (round_half_even y) \<le> y + 1 / 2"
proof -
  define f where "f = \<lfloor>y\<rfloor>"
  have f: "of_int f \<le> y"
    by (simp add: f_def)
  have "round_half_even y = f \<or> round_half_even y = f + 1 \<and> 1 / 2 \<le> y - of_int f"
    by (simp add: round_half_even_def Let_def f_def)
  then show ?thesis
  proof
    assume "round_half_even y = f"
    with f show ?thesis by simp
  next
    assume "round_half_even y = f + 1 \<and> 1 / 2 \<le> y - of_int f"
    then show ?thesis by simp
  qed
qed

lemma round_significand_upper:
  assumes "0 < x"
  shows "round_significand x \<le> x + pow2 (max (ilog2 x - 23) (- 149)) / 2"
proof -
  let ?p = "pow2 (max (ilog2 x - 23) (- 149))"
  have p: "0 < ?p" by (rule pow2_pos)
  have "of_int (round_half_even (x / ?p)) * ?p \<le> (x / ?p + 1 / 2) * ?p"
    using round_half_even_upper [of "x / ?p"] p by (simp only: mult_le_cancel_right_pos)
  also have "\<dots> = x + ?p / 2"
    using p by (simp add: field_simps)
  finally show ?thesis
    by (simp only: round_significand_pos [OF assms])
qed

lemma ilog2_less:
  assumes "0 < x" and "x < pow2 E"
  shows "ilog2 x < E"
proof (rule ccontr)
  assume "\<not> ilog2 x < E"
  then have "E \<le> ilog2 x" by simp
  then have "pow2 E \<le> pow2 (ilog2 x)" by (rule pow2_mono)
  also have "\<dots> \<le> x" using ilog2_bounds [OF assms(1)] by simp
  finally show False using assms(2) by simp
qed

text \<open>A number whose multiple by the unit in the last place is an integer is not changed.\<close>

lemma round_significand_exact:
  assumes "0 < x" and "x / pow2 (max (ilog2 x - 23) (- 149)) = of_int k"
  shows "round_significand x = x"
proof -
  let ?p = "pow2 (max (ilog2 x - 23) (- 149))"
  have p: "0 < ?p" by (rule pow2_pos)
  have "round_significand x = of_int (round_half_even (of_int k)) * ?p"
    by (simp only: round_significand_pos [OF assms(1)] assms(2))
  also have "\<dots> = of_int k * ?p"
    by (simp only: round_half_even_of_int)
  also have "\<dots> = x"
    using assms(2) p by (simp add: field_simps)
  finally show ?thesis .
qed

lemma round_significand_half_int:
  assumes "0 \<le> n" and "n < 2 ^ 24"
  shows "round_significand (of_int n / 2) = of_int n / 2"
proof (cases "n = 0")
  case True
  then show ?thesis by (simp add: round_significand_zero)
next
  case False
  let ?x = "of_int n / 2 :: real"
  let ?e = "max (ilog2 ?x - 23) (- 149)"
  from False assms have x: "0 < ?x" by simp
  have "?x < 2 ^ 23"
  proof -
    have "(of_int n :: real) < of_int (2 ^ 24)"
      using assms(2) by (simp only: of_int_less_iff)
    then show ?thesis by simp
  qed
  then have "?x < pow2 23" by (simp add: pow2_def)
  with x have "ilog2 ?x < 23" by (rule ilog2_less)
  then have e: "?e \<le> - 1" by simp
  then have "pow2 ?e = 1 / 2 ^ nat (- ?e)"
    by (simp add: pow2_def)
  moreover have "(2 :: real) ^ nat (- ?e) = 2 * 2 ^ (nat (- ?e) - 1)"
  proof -
    from e have "nat (- ?e) = Suc (nat (- ?e) - 1)" by simp
    then have "(2 :: real) ^ nat (- ?e) = 2 ^ Suc (nat (- ?e) - 1)" by (rule arg_cong)
    then show ?thesis by (simp only: power_Suc)
  qed
  ultimately have "?x / pow2 ?e = of_int (n * 2 ^ (nat (- ?e) - 1))"
    by simp
  with x show ?thesis by (rule round_significand_exact)
qed


text \<open>
  The gradient is the rounded quotient of the PWM span \<open>k\<close> by the rpm span \<open>D\<close>;
  multiplied by the rpm span again, it exceeds \<open>k\<close> by less than one half.
\<close>

lemma span_times_gradient:
  assumes D: "0 \<le> D" "D \<le> 2 ^ 128" and k: "k < (65536 :: nat)"
  shows "D * round_significand (of_nat k / D) \<le> of_nat k + 1 / 2"
proof (cases "D = 0 \<or> k = 0")
  case True
  then show ?thesis by (auto simp add: round_significand_zero)
next
  case False
  with D(1) have Dpos: "0 < D" and kpos: "0 < k" by simp_all
  let ?y = "of_nat k / D :: real"
  let ?e = "max (ilog2 ?y - 23) (- 149)"
  from Dpos kpos have y: "0 < ?y" by simp
  have "D * pow2 ?e \<le> 1"
  proof (cases "- 149 \<le> ilog2 ?y - 23")
    case True
    then have "?e = ilog2 ?y - 23" by simp
    then have "pow2 ?e = pow2 (ilog2 ?y) / pow2 23"
      by (simp only: pow2_diff)
    also have "\<dots> \<le> ?y / pow2 23"
    proof (rule divide_right_mono)
      show "pow2 (ilog2 ?y) \<le> ?y" using ilog2_bounds [OF y] by (rule conjunct1)
      show "0 \<le> pow2 23" using pow2_pos [of 23] by (rule less_imp_le)
    qed
    finally have "D * pow2 ?e \<le> D * (?y / pow2 23)"
      using Dpos by (simp only: mult_le_cancel_left_pos)
    also have "\<dots> = of_nat k / pow2 23"
      using Dpos by simp
    also have "\<dots> \<le> 1"
    proof -
      have "(of_nat k :: real) \<le> of_nat 65536"
        using k by (simp only: of_nat_le_iff)
      then show ?thesis by (simp add: pow2_def)
    qed
    finally show ?thesis .
  next
    case False
    then have "?e = - 149" by simp
    then have "pow2 ?e = pow2 (- 149)"
      by (simp only:)
    then have "D * pow2 ?e = D / 2 ^ 149"
      by (simp add: pow2_def)
    also have "\<dots> \<le> 2 ^ 128 / 2 ^ 149"
      using D(2) by (simp only: divide_right_mono zero_le_numeral zero_le_power)
    also have "\<dots> \<le> 1" by simp
    finally show ?thesis .
  qed
  moreover have "D * round_significand ?y \<le> D * (?y + pow2 ?e / 2)"
    using round_significand_upper [OF y] Dpos by (simp only: mult_le_cancel_left_pos)
  moreover have "D * (?y + pow2 ?e / 2) = of_nat k + D * pow2 ?e / 2"
    using Dpos by (simp add: field_simps)
  ultimately show ?thesis by simp
qed

lemma floor_span_times_gradient:
  assumes D: "0 \<le> D" "D \<le> 2 ^ 128" and k: "k < (65536 :: nat)"
  shows "\<lfloor>round_significand (D * round_significand (of_nat k / D))\<rfloor> \<le> int k"
proof -
  have "int k < 65536"
    using k by simp
  then have n: "0 \<le> 2 * int k + 1" "2 * int k + 1 < 2 ^ 24"
    by simp_all
  have "D * round_significand (of_nat k / D) \<le> of_nat k + 1 / 2"
    using D k by (rule span_times_gradient)
  then have "round_significand (D * round_significand (of_nat k / D)) \<le> round_significand (of_nat k + 1 / 2)"
    by (rule round_significand_mono)
  also have "of_nat k + 1 / 2 = (of_int (2 * int k + 1) / 2 :: real)"
    by simp
  also have "round_significand \<dots> = of_int (2 * int k + 1) / 2"
    using n by (rule round_significand_half_int)
  finally have "round_significand (D * round_significand (of_nat k / D)) < of_int (int k + 1)"
    by simp
  then have "\<lfloor>round_significand (D * round_significand (of_nat k / D))\<rfloor> < int k + 1"
    by (simp only: floor_less_iff)
  then show ?thesis by simp
qed

section \<open>Properties of the spindle PWM computation\<close>

lemmas rs_eval = round_significand_def ilog2_def compute_bitlen round_half_even_def pow2_def
  Let_def

lemmas f32_eval = f32_round_def f32_of_nat_def rs_eval

subsection \<open>Finite results\<close>

lemma f32_round_Finite:
  assumes "- (2 ^ 128) < round_significand x" and "round_significand x < 2 ^ 128"
  shows "f32_round x = Finite (round_significand x)"
  using assms by (simp add: f32_round_def Let_def)

lemma f32_round_eq_Finite:
  "f32_round x = Finite r \<longleftrightarrow>
     r = round_significand x \<and> - (2 ^ 128) < r \<and> r < 2 ^ 128"
  by (auto simp add: f32_round_def Let_def)

lemma f32_round_below:
  assumes "0 \<le> x" and "x \<le> y" and "f32_round y = Finite r"
  shows "f32_round x = Finite (round_significand x)" and "round_significand x \<le> r"
    and "0 \<le> round_significand x"
proof -
  from assms(3) have r: "r = round_significand y" "r < 2 ^ 128"
    by (simp_all add: f32_round_eq_Finite)
  show le: "round_significand x \<le> r"
    unfolding r(1) using assms(2) by (rule round_significand_mono)
  show nonneg: "0 \<le> round_significand x"
    using assms(1) by (rule round_significand_nonneg)
  from le r(2) have "round_significand x < 2 ^ 128" by simp
  moreover from nonneg have "- (2 ^ 128) < round_significand x"
    by (rule less_le_trans [rotated]) simp
  ultimately show "f32_round x = Finite (round_significand x)"
    by (rule f32_round_Finite [rotated])
qed

lemma f32_of_nat_exact:
  assumes "n < 2 ^ 23"
  shows "f32_of_nat n = Finite (of_nat n)"
proof -
  have "int n < 2 ^ 23"
    using assms by (simp only: of_nat_less_numeral_power_cancel_iff)
  then have "2 * int n < 2 ^ 24" by simp
  then have "round_significand (of_int (2 * int n) / 2) = of_int (2 * int n) / 2"
    by (intro round_significand_half_int) simp_all
  then have e: "round_significand (of_nat n) = of_nat n"
    by simp
  have "(of_nat n :: real) < of_nat (2 ^ 23)"
    using assms by (simp only: of_nat_less_iff)
  then have "(of_nat n :: real) < 2 ^ 128"
    by simp
  moreover have "- (2 ^ 128) < (of_nat n :: real)"
    by (rule less_le_trans [of _ 0]) simp_all
  ultimately show ?thesis
    unfolding f32_of_nat_def by (simp only: f32_round_def Let_def e) simp
qed

subsection \<open>The order of \<open>float\<close>\<close>

lemma f32_lt_Finite_left: "f32_lt (Finite a) e \<longleftrightarrow> e = PInf \<or> (\<exists>x. e = Finite x \<and> a < x)"
  by (cases e) simp_all

lemma f32_lt_Finite_right: "f32_lt e (Finite b) \<longleftrightarrow> e = NInf \<or> (\<exists>x. e = Finite x \<and> x < b)"
  by (cases e) simp_all

lemma f32_le_Finite_left: "f32_le (Finite a) e \<longleftrightarrow> e = PInf \<or> (\<exists>x. e = Finite x \<and> a \<le> x)"
  by (cases e) simp_all

lemma f32_le_Finite_right: "f32_le e (Finite b) \<longleftrightarrow> e = NInf \<or> (\<exists>x. e = Finite x \<and> x \<le> b)"
  by (cases e) simp_all

lemma f32_lt_not_le: "f32_lt a b \<Longrightarrow> \<not> f32_le b a"
  by (cases a; cases b) simp_all

lemma f32_le_lt_trans: "f32_le a b \<Longrightarrow> f32_lt b c \<Longrightarrow> f32_lt a c"
  by (cases a; cases b; cases c) simp_all

lemma f32_eq_zero: "f32_eq e (Finite 0) \<longleftrightarrow> e = Finite 0"
  by (cases e) simp_all

subsection \<open>The branches of the computation\<close>

lemma pwm_high:
  assumes "f32_le (rpm_max s) (rpm_min s) \<or> f32_le (rpm_max s) e"
  shows "pwm_of_effective_rpm s pwm e = Some (max_value pwm - 1, rpm_max s)"
  using assms by (auto simp add: pwm_of_effective_rpm_def)

lemma pwm_zero:
  assumes "f32_lt (rpm_min s) (rpm_max s)" and "f32_le (Finite 0) (rpm_min s)"
  shows "pwm_of_effective_rpm s pwm (Finite 0) = Some (off_value pwm, Finite 0)"
proof -
  from assms(1) have "\<not> f32_le (rpm_max s) (rpm_min s)"
    by (rule f32_lt_not_le)
  moreover from assms(2,1) have "f32_lt (Finite 0) (rpm_max s)"
    by (rule f32_le_lt_trans)
  then have "\<not> f32_le (rpm_max s) (Finite 0)"
    by (rule f32_lt_not_le)
  ultimately show ?thesis
    using assms(2) by (simp add: pwm_of_effective_rpm_def)
qed

lemma pwm_low:
  assumes "\<not> f32_le (rpm_max s) (rpm_min s)" and "\<not> f32_le (rpm_max s) e"
    and "f32_le e (rpm_min s)" and "e \<noteq> Finite 0"
  shows "pwm_of_effective_rpm s pwm e = Some (min_value pwm, rpm_min s)"
  using assms by (simp add: pwm_of_effective_rpm_def f32_eq_zero)

text \<open>
  What \<open>interpolation_fits\<close> says, in numbers: the range is finite, with a finite
  difference \<open>d\<close>, and the product of \<open>d\<close> and the gradient \<open>g\<close> is finite.
\<close>

lemma interpolation_fitsE:
  assumes "interpolation_fits s pwm"
  obtains a b g where "rpm_min s = Finite a" and "rpm_max s = Finite b"
    and "pwm_gradient pwm = Finite g" and "0 \<le> g"
    and "f32_round (b - a) = Finite (round_significand (b - a))"
    and "f32_round (round_significand (b - a) * g)
           = Finite (round_significand (round_significand (b - a) * g))"
    and "\<lfloor>round_significand (round_significand (b - a) * g)\<rfloor>
           + int (unat (min_value pwm)) < 65536"
proof -
  from assms obtain g where g: "pwm_gradient pwm = Finite g" "0 \<le> g"
    and m: "case f32_mul (f32_sub (rpm_max s) (rpm_min s)) (Finite g) of
              Finite m \<Rightarrow> \<lfloor>m\<rfloor> + int (unat (min_value pwm)) < 65536 | _ \<Rightarrow> False"
    by (auto simp add: interpolation_fits_def split: f32.splits)
  from m obtain m where m: "f32_mul (f32_sub (rpm_max s) (rpm_min s)) (Finite g) = Finite m"
    "\<lfloor>m\<rfloor> + int (unat (min_value pwm)) < 65536"
    by (auto split: f32.splits)
  from m(1) obtain d where d: "f32_sub (rpm_max s) (rpm_min s) = Finite d"
    by (cases "f32_sub (rpm_max s) (rpm_min s)") (simp_all split: if_splits)
  from d obtain a b where ab: "rpm_min s = Finite a" "rpm_max s = Finite b"
    by (cases "rpm_max s"; cases "rpm_min s") simp_all
  from d ab have d': "f32_round (b - a) = Finite d"
    by simp
  then have dr: "d = round_significand (b - a)"
    by (simp add: f32_round_eq_Finite)
  from m(1) d have "f32_round (d * g) = Finite m"
    by simp
  then have mr: "m = round_significand (d * g)" "f32_round (d * g) = Finite m"
    by (simp_all add: f32_round_eq_Finite)
  show thesis
  proof (rule that [OF ab g])
    show "f32_round (b - a) = Finite (round_significand (b - a))"
      using d' by (simp only: dr)
    show "f32_round (round_significand (b - a) * g)
           = Finite (round_significand (round_significand (b - a) * g))"
      using mr(2) by (simp only: mr(1) dr)
    show "\<lfloor>round_significand (round_significand (b - a) * g)\<rfloor>
           + int (unat (min_value pwm)) < 65536"
      using m(2) by (simp only: mr(1) dr)
  qed
qed

text \<open>The interpolated integer of the linear branch.\<close>

lemma interpolation_mono:
  assumes "0 \<le> g" and "x \<le> y"
  shows "\<lfloor>round_significand (round_significand (x - a) * g)\<rfloor>
           \<le> \<lfloor>round_significand (round_significand (y - a) * g)\<rfloor>"
proof -
  have "round_significand (x - a) \<le> round_significand (y - a)"
    using assms(2) by (intro round_significand_mono) simp
  then have "round_significand (x - a) * g \<le> round_significand (y - a) * g"
    using assms(1) by (rule mult_right_mono)
  then have "round_significand (round_significand (x - a) * g)
               \<le> round_significand (round_significand (y - a) * g)"
    by (rule round_significand_mono)
  then show ?thesis
    by (rule floor_mono)
qed

lemma unat_sum_u16:
  assumes "0 \<le> q" and "q + int (unat (mn :: u16)) < 65536"
  shows "unat (ucast ((word_of_int q :: u32) + ucast mn) :: u16) = nat q + unat mn"
proof -
  have "q < 4294967296"
    using assms by linarith
  then have "q mod 4294967296 = q"
    using assms(1) by (rule mod_pos_pos_trivial [rotated])
  moreover have "uint (word_of_int q :: u32) = q mod 4294967296"
    by (simp add: uint_word_of_int)
  ultimately have q: "unat (word_of_int q :: u32) = nat q"
    by (simp only: unat_eq_nat_uint)
  have m: "unat (ucast mn :: u32) = unat mn"
    by (rule unat_ucast_16_32)
  have n: "nat q + unat mn < 65536"
    using assms by linarith
  then have "(nat q + unat mn) mod 4294967296 = nat q + unat mn"
    by simp
  then have "unat ((word_of_int q :: u32) + ucast mn) = nat q + unat mn"
    by (simp add: unat_word_ariths q m)
  then show ?thesis
    using n by (simp add: unat_ucast_32_16)
qed

lemma clamp_mono:
  fixes v1 v2 mx :: u16
  assumes "v1 \<le> v2"
  shows "(if mx \<le> v1 then mx - 1 else v1) \<le> (if mx \<le> v2 then mx - 1 else v2)"
proof (cases "mx \<le> v2")
  case True
  show ?thesis
  proof (cases "mx \<le> v1")
    case True
    with \<open>mx \<le> v2\<close> show ?thesis by simp
  next
    case False
    then have "v1 < mx" by simp
    then have "v1 \<le> mx - 1" by (rule less_imp_less_eq_dec)
    with False True show ?thesis by simp
  qed
next
  case False
  with assms have "\<not> mx \<le> v1" by simp
  with False assms show ?thesis by simp
qed

lemma f32_to_u32_of_int:
  assumes "0 \<le> q" and "q < 4294967296"
  shows "f32_to_u32 (Finite (of_int q)) = Some (word_of_int q)"
proof -
  have "(of_int q :: real) < of_int 4294967296"
    using assms(2) by (simp only: of_int_less_iff)
  then have "(of_int q :: real) < 2 ^ 32"
    by simp
  moreover have "(0 :: real) \<le> of_int q"
    using assms(1) by simp
  moreover from this have "- 1 < (of_int q :: real)"
    by (rule less_le_trans [rotated]) simp
  ultimately show ?thesis
    by (simp only: f32_to_u32.simps simp_thms if_True floor_of_int)
qed

text \<open>
  The linear branch, for a configuration that the linear model fits: every cast is
  defined, and the value before the clamp is the interpolated integer plus \<open>min_value\<close>.
\<close>

lemma linear_branch:
  assumes fits: "interpolation_fits s pwm"
    and a: "rpm_min s = Finite a" and b: "rpm_max s = Finite b"
    and g: "pwm_gradient pwm = Finite g"
    and x: "a < x" "x < b"
  shows "\<exists>v. pwm_of_effective_rpm s pwm (Finite x)
               = Some (if max_value pwm \<le> v then max_value pwm - 1 else v, Finite x) \<and>
             unat v = nat \<lfloor>round_significand (round_significand (x - a) * g)\<rfloor>
                        + unat (min_value pwm)"
proof -
  from fits a b g have g0: "0 \<le> g"
    and d: "f32_round (b - a) = Finite (round_significand (b - a))"
    and m: "f32_round (round_significand (b - a) * g)
           = Finite (round_significand (round_significand (b - a) * g))"
    and top: "\<lfloor>round_significand (round_significand (b - a) * g)\<rfloor>
           + int (unat (min_value pwm)) < 65536"
    by (auto elim!: interpolation_fitsE)
  let ?d = "round_significand (x - a)"
  let ?m = "round_significand (?d * g)"
  from x have xa: "0 \<le> x - a" "x - a \<le> b - a"
    by simp_all
  have dx: "f32_round (x - a) = Finite ?d" "?d \<le> round_significand (b - a)" "0 \<le> ?d"
    using xa d by (rule f32_round_below)+
  from dx(3) g0 have p0: "0 \<le> ?d * g"
    by simp
  from dx(2) g0 have p1: "?d * g \<le> round_significand (b - a) * g"
    by (rule mult_right_mono)
  have mx: "f32_round (?d * g) = Finite ?m"
    "?m \<le> round_significand (round_significand (b - a) * g)" "0 \<le> ?m"
    using p0 p1 m by (rule f32_round_below)+
  from mx(3) have q0: "0 \<le> \<lfloor>?m\<rfloor>"
    by simp
  from mx(2) have "\<lfloor>?m\<rfloor> \<le> \<lfloor>round_significand (round_significand (b - a) * g)\<rfloor>"
    by (rule floor_mono)
  with top have q1: "\<lfloor>?m\<rfloor> + int (unat (min_value pwm)) < 65536"
    by linarith
  from q0 q1 have "\<lfloor>?m\<rfloor> < 4294967296"
    by linarith
  with q0 have "f32_to_u32 (Finite (of_int \<lfloor>?m\<rfloor>)) = Some (word_of_int \<lfloor>?m\<rfloor>)"
    by (rule f32_to_u32_of_int)
  then have cast:
    "f32_to_u32 (floorf (f32_mul (f32_sub (Finite x) (rpm_min s)) (pwm_gradient pwm)))
       = Some (word_of_int \<lfloor>?m\<rfloor>)"
    by (simp only: a g f32_sub.simps f32_mul.simps dx(1) mx(1) floorf.simps)
  let ?v = "ucast ((word_of_int \<lfloor>?m\<rfloor> :: u32) + ucast (min_value pwm)) :: u16"
  from x have "\<not> f32_le (rpm_max s) (rpm_min s)" "\<not> f32_le (rpm_max s) (Finite x)"
    "\<not> f32_le (Finite x) (rpm_min s)"
    by (simp_all add: a b)
  then have "pwm_of_effective_rpm s pwm (Finite x)
               = Some (if max_value pwm \<le> ?v then max_value pwm - 1 else ?v, Finite x)"
    by (simp add: pwm_of_effective_rpm_def cast Let_def)
  moreover have "unat ?v = nat \<lfloor>?m\<rfloor> + unat (min_value pwm)"
    using q0 q1 by (rule unat_sum_u16)
  ultimately show ?thesis
    by blast
qed

lemma pwm_linear_mono:
  assumes fits: "interpolation_fits s pwm"
    and e1: "f32_lt (rpm_min s) e1" and e12: "f32_le e1 e2" and e2: "f32_lt e2 (rpm_max s)"
  shows "\<exists>v1 v2. map_option fst (pwm_of_effective_rpm s pwm e1) = Some v1 \<and>
                 map_option fst (pwm_of_effective_rpm s pwm e2) = Some v2 \<and> v1 \<le> v2"
proof -
  from fits obtain a b g where ab: "rpm_min s = Finite a" "rpm_max s = Finite b"
    and g: "pwm_gradient pwm = Finite g" "0 \<le> g"
    by (rule interpolation_fitsE)
  from e1 e12 e2 obtain x y where xy: "e1 = Finite x" "e2 = Finite y" "a < x" "x \<le> y" "y < b"
    unfolding ab by (cases e1; cases e2) simp_all
  from xy have xb: "x < b" and ay: "a < y"
    by simp_all
  from linear_branch [OF fits ab g(1) xy(3) xb] obtain v1 where
    v1: "pwm_of_effective_rpm s pwm (Finite x)
           = Some (if max_value pwm \<le> v1 then max_value pwm - 1 else v1, Finite x)"
      "unat v1 = nat \<lfloor>round_significand (round_significand (x - a) * g)\<rfloor>
                   + unat (min_value pwm)"
    by blast
  from linear_branch [OF fits ab g(1) ay xy(5)] obtain v2 where
    v2: "pwm_of_effective_rpm s pwm (Finite y)
           = Some (if max_value pwm \<le> v2 then max_value pwm - 1 else v2, Finite y)"
      "unat v2 = nat \<lfloor>round_significand (round_significand (y - a) * g)\<rfloor>
                   + unat (min_value pwm)"
    by blast
  have "nat \<lfloor>round_significand (round_significand (x - a) * g)\<rfloor>
          \<le> nat \<lfloor>round_significand (round_significand (y - a) * g)\<rfloor>"
    using interpolation_mono [OF g(2) xy(4), of a] by simp
  then have "unat v1 \<le> unat v2"
    unfolding v1(2) v2(2) by simp
  then have "v1 \<le> v2"
    by (simp only: word_le_nat_alt)
  then have "(if max_value pwm \<le> v1 then max_value pwm - 1 else v1)
               \<le> (if max_value pwm \<le> v2 then max_value pwm - 1 else v2)"
    by (rule clamp_mono)
  then show ?thesis
    unfolding xy(1,2) v1(1) v2(1) by simp
qed

lemma pwm_off_only_at_zero:
  assumes fits: "interpolation_fits s pwm" and range: "f32_lt (rpm_min s) (rpm_max s)"
    and om: "off_value pwm < min_value pwm" and mm: "min_value pwm < max_value pwm"
    and off: "map_option fst (pwm_of_effective_rpm s pwm e) = Some (off_value pwm)"
  shows "e = Finite 0"
proof (rule ccontr)
  assume nz: "e \<noteq> Finite 0"
  from fits obtain a b g where ab: "rpm_min s = Finite a" "rpm_max s = Finite b"
    and g: "pwm_gradient pwm = Finite g" "0 \<le> g"
    by (rule interpolation_fitsE)
  from mm have "min_value pwm \<le> max_value pwm - 1"
    by (rule less_imp_less_eq_dec)
  with om have top: "off_value pwm < max_value pwm - 1"
    by simp
  from range have nr: "\<not> f32_le (rpm_max s) (rpm_min s)"
    by (rule f32_lt_not_le)
  have "f32_le (rpm_max s) e \<or> (\<not> f32_le (rpm_max s) e \<and> f32_le e (rpm_min s)) \<or>
      e = NaN \<or> (\<exists>x. e = Finite x \<and> a < x \<and> x < b)"
    unfolding ab by (cases e) auto
  then consider (high) "f32_le (rpm_max s) e"
    | (low) "\<not> f32_le (rpm_max s) e" "f32_le e (rpm_min s)"
    | (nan) "e = NaN"
    | (linear) x where "e = Finite x" "a < x" "x < b"
    by blast
  then show False
  proof cases
    case high
    then have "map_option fst (pwm_of_effective_rpm s pwm e) = Some (max_value pwm - 1)"
      by (simp add: pwm_high)
    with off top show False by simp
  next
    case low
    with nr nz have "map_option fst (pwm_of_effective_rpm s pwm e) = Some (min_value pwm)"
      by (simp add: pwm_low)
    with off om show False by simp
  next
    case nan
    with nr have "pwm_of_effective_rpm s pwm e = None"
      by (simp add: pwm_of_effective_rpm_def ab)
    with off show False by simp
  next
    case linear
    from linear_branch [OF fits ab g(1) linear(2,3)] obtain v where
      v: "pwm_of_effective_rpm s pwm (Finite x)
            = Some (if max_value pwm \<le> v then max_value pwm - 1 else v, Finite x)"
        "unat v = nat \<lfloor>round_significand (round_significand (x - a) * g)\<rfloor>
                    + unat (min_value pwm)"
      by blast
    from v(2) have "unat (min_value pwm) \<le> unat v"
      by simp
    then have "min_value pwm \<le> v"
      by (simp only: word_le_nat_alt)
    with om have "off_value pwm < v" by simp
    with off top show False
      unfolding linear(1) v(1) by (simp split: if_splits)
  qed
qed

subsection \<open>Concrete values\<close>

lemma f32_round_hundredth: "f32_round (1 / 100) = Finite (5368709 / 536870912)"
  by (simp add: f32_eval)

lemma f32_of_nat_examples:
  "f32_of_nat 100 = Finite 100" "f32_of_nat 1000 = Finite 1000" "f32_of_nat 950 = Finite 950"
  "f32_of_nat 64586 = Finite 64586"
  by (simp_all add: f32_of_nat_exact)

lemma f32_round_scale_100: "f32_round (134217725 / 134217728) = Finite 1"
  by (simp add: f32_eval)

text \<open>
  With an override of 100 percent the scale factor \<open>0.010f * 100\<close> rounds to exactly 1,
  so the effective rpm is the programmed rpm.
\<close>

lemma effective_rpm_100: "effective_rpm rpm 100 = f32_mul rpm (Finite 1)"
  by (simp add: effective_rpm_def f32_round_hundredth f32_of_nat_examples f32_round_scale_100)

lemma f32_round_examples:
  "f32_round 0 = Finite 0" "f32_round (1 / 2) = Finite (1 / 2)"
  "f32_round 50 = Finite 50" "f32_round 999 = Finite 999"
  "f32_round (1999 / 2) = Finite (1999 / 2)" "f32_round 1000 = Finite 1000"
  "f32_round 4000 = Finite 4000" "f32_round 5000 = Finite 5000"
  "f32_round 11000 = Finite 11000" "f32_round 12000 = Finite 12000"
  "f32_round 23000 = Finite 23000" "f32_round 24000 = Finite 24000"
  "f32_round 30000 = Finite 30000" "f32_round 100000 = Finite 100000"
  by (simp_all add: f32_eval)

lemma effective_rpm_examples:
  "effective_rpm (Finite 0) 100 = Finite 0" "effective_rpm (Finite (1 / 2)) 100 = Finite (1 / 2)"
  "effective_rpm (Finite 999) 100 = Finite 999"
  "effective_rpm (Finite (1999 / 2)) 100 = Finite (1999 / 2)"
  "effective_rpm (Finite 1000) 100 = Finite 1000" "effective_rpm (Finite 5000) 100 = Finite 5000"
  "effective_rpm (Finite 12000) 100 = Finite 12000"
  "effective_rpm (Finite 24000) 100 = Finite 24000"
  "effective_rpm (Finite 30000) 100 = Finite 30000"
  by (simp_all add: effective_rpm_100 f32_round_examples)

lemma f32_to_u32_examples:
  "f32_to_u32 (Finite 0) = Some 0" "f32_to_u32 (Finite 50) = Some 50"
  "f32_to_u32 (Finite 1000) = Some 1000"
  by simp_all

lemma percent_of_1000:
  "percent_of_period 1000 (Finite 0) = Some 0" "percent_of_period 1000 (Finite 5) = Some 50"
  "percent_of_period 1000 (Finite 100) = Some 1000"
  by (simp_all add: percent_of_period_def f32_of_nat_examples f32_round_examples)

text \<open>A PWM frequency of 3125 Hz gives the period of 1000 units.\<close>

lemma period_3125:
  assumes "spindle_pwm_freq s = Finite 3125"
  shows "spindle_pwm_period s = Some 1000"
  using assms by (simp add: spindle_pwm_period_def f32_round_examples)

lemma scenario_fields:
  "rpm_min scenario_settings = Finite 1000" "rpm_max scenario_settings = Finite 24000"
  "spindle_pwm_freq scenario_settings = Finite 3125"
  "spindle_pwm_off_value scenario_settings = Finite 0"
  "spindle_pwm_min_value scenario_settings = Finite 5"
  "spindle_pwm_max_value scenario_settings = Finite 100"
  by (simp_all add: scenario_settings_def)

lemma scenario_pwm_fields:
  "off_value scenario_pwm = 0" "min_value scenario_pwm = 50" "max_value scenario_pwm = 1000"
  "pwm_gradient scenario_pwm = Finite (11087551 / 268435456)"
  by (simp_all add: scenario_pwm_def)

lemma scenario_gradient: "f32_round (19 / 460) = Finite (11087551 / 268435456)"
  by (simp add: f32_eval)

lemma settings_changed_scenario: "settings_changed scenario_settings = Some scenario_pwm"
  by (simp add: settings_changed_def scenario_fields scenario_pwm_def period_3125
      percent_of_1000 f32_of_nat_examples f32_round_examples scenario_gradient)


text \<open>
  C6. The concrete scenario: with \<open>rpm_min = 1000\<close>, \<open>rpm_max = 24000\<close>, PWM
  percentages 0, 5 and 100 and a derived period of 1000 units, the derived configuration
  has \<open>min_value = 50\<close>, \<open>max_value = 1000\<close> and \<open>off_value = 0\<close>, and the PWM value
  is 50 at 1000 rpm, 999 at 24000 rpm and the off value 0 at 0 rpm, each at 100 percent
  override.
\<close>

theorem C6_scenario:
  assumes "rpm_min s = Finite 1000" and "rpm_max s = Finite 24000"
    and "spindle_pwm_off_value s = Finite 0" and "spindle_pwm_min_value s = Finite 5"
    and "spindle_pwm_max_value s = Finite 100" and "spindle_pwm_period s = Some 1000"
  shows "\<exists>pwm. settings_changed s = Some pwm \<and> period pwm = 1000 \<and>
           min_value pwm = 50 \<and> max_value pwm = 1000 \<and> off_value pwm = 0 \<and>
           spindleComputePWMValue s pwm (Finite 1000) 100 = Some 50 \<and>
           spindleComputePWMValue s pwm (Finite 24000) 100 = Some 999 \<and>
           spindleComputePWMValue s pwm (Finite 0) 100 = Some (off_value pwm) \<and>
           spindleComputePWMValue s pwm (Finite 0) 100 = Some 0"
proof -
  have "settings_changed s = Some scenario_pwm"
    using assms
    by (simp add: settings_changed_def scenario_pwm_def percent_of_1000 f32_of_nat_examples
        f32_round_examples scenario_gradient)
  moreover have "period scenario_pwm = 1000"
    by (simp add: scenario_pwm_def)
  moreover have "spindleComputePWMValue s scenario_pwm (Finite 1000) 100 = Some 50"
    "spindleComputePWMValue s scenario_pwm (Finite 24000) 100 = Some 999"
    "spindleComputePWMValue s scenario_pwm (Finite 0) 100 = Some 0"
    using assms(1,2)
    by (simp_all add: spindleComputePWMValue_def pwm_of_effective_rpm_def effective_rpm_examples
        scenario_pwm_fields)
  ultimately show ?thesis
    by (simp add: scenario_pwm_fields)
qed

theorem C6_scenario_witness:
  "spindle_pwm_period scenario_settings = Some 1000 \<and>
   (\<exists>pwm. settings_changed scenario_settings = Some pwm \<and> period pwm = 1000 \<and>
      min_value pwm = 50 \<and> max_value pwm = 1000 \<and> off_value pwm = 0 \<and>
      spindleComputePWMValue scenario_settings pwm (Finite 1000) 100 = Some 50 \<and>
      spindleComputePWMValue scenario_settings pwm (Finite 24000) 100 = Some 999 \<and>
      spindleComputePWMValue scenario_settings pwm (Finite 0) 100 = Some (off_value pwm) \<and>
      spindleComputePWMValue scenario_settings pwm (Finite 0) 100 = Some 0)"
  using C6_scenario [of scenario_settings]
  by (simp only: scenario_fields period_3125 simp_thms)

text \<open>
  Every configuration that \<open>settings_changed\<close> derives from an rpm range of positive,
  finite width, with the minimum PWM value not above the maximum and a finite gradient
  (for a width below \<open>2^-112\<close> the quotient can overflow), supports the linear model.
\<close>

lemma settings_changed_fits:
  assumes sc: "settings_changed s = Some pwm"
    and d: "f32_sub (rpm_max s) (rpm_min s) = Finite d" "0 < d"
    and mm: "min_value pwm \<le> max_value pwm"
    and g: "pwm_gradient pwm = Finite g"
  shows "interpolation_fits s pwm"
proof -
  define k where "k = unat (max_value pwm - min_value pwm)"
  have "k = unat (max_value pwm) - unat (min_value pwm)"
    unfolding k_def using mm by (rule unat_sub)
  moreover have "unat (max_value pwm) < 65536"
    using unsigned_less [of "max_value pwm", where ?'a = nat] by simp
  moreover have "unat (min_value pwm) \<le> unat (max_value pwm)"
    using mm by (simp only: word_le_nat_alt)
  ultimately have k: "k < 65536" and "k + unat (min_value pwm) < 65536"
    by linarith+
  then have sum: "int k + int (unat (min_value pwm)) < 65536"
    by linarith
  from k have "k < 2 ^ 23" by simp
  then have fk: "f32_of_nat k = Finite (of_nat k)" by (rule f32_of_nat_exact)
  from sc have "pwm_gradient pwm =
      f32_div (f32_of_nat (unat (max_value pwm - min_value pwm)))
        (f32_sub (rpm_max s) (rpm_min s))"
    by (auto simp add: settings_changed_def split: option.splits)
  with d g have "f32_round (of_nat k / d) = Finite g"
    by (simp add: k_def [symmetric] fk)
  then have gr: "g = round_significand (of_nat k / d)"
    by (simp add: f32_round_eq_Finite)
  have g0: "0 \<le> g"
    unfolding gr
  proof (rule round_significand_nonneg)
    from d(2) have "0 \<le> d" by simp
    with of_nat_0_le_iff show "0 \<le> of_nat k / d" by (rule divide_nonneg_nonneg)
  qed
  from d(1) obtain a b where ab: "rpm_min s = Finite a" "rpm_max s = Finite b"
    by (cases "rpm_max s"; cases "rpm_min s") simp_all
  from d(1) have "d < 2 ^ 128"
    by (simp add: ab f32_round_eq_Finite)
  then have D: "0 \<le> d" "d \<le> 2 ^ 128"
    using d(2) by simp_all
  have q: "\<lfloor>round_significand (d * g)\<rfloor> \<le> int k"
    unfolding gr using D k by (rule floor_span_times_gradient)
  have p0: "0 \<le> d * g"
    using D(1) g0 by simp
  then have m0: "0 \<le> round_significand (d * g)"
    by (rule round_significand_nonneg)
  have "round_significand (d * g) < of_int (int k + 1)"
    using q by (simp only: floor_less_iff [symmetric])
  also have "\<dots> \<le> of_int 65536"
  proof -
    from k have "int k + 1 \<le> 65536" by simp
    then show ?thesis by (simp only: of_int_le_iff)
  qed
  also have "\<dots> < (2 :: real) ^ 128"
    by simp
  finally have m1: "round_significand (d * g) < 2 ^ 128" .
  from m0 have "- (2 ^ 128) < round_significand (d * g)"
    by (rule less_le_trans [rotated]) simp
  then have "f32_round (d * g) = Finite (round_significand (d * g))"
    using m1 by (rule f32_round_Finite)
  moreover from q sum have "\<lfloor>round_significand (d * g)\<rfloor> + int (unat (min_value pwm)) < 65536"
    by linarith
  ultimately show ?thesis
    using g0 by (simp add: interpolation_fits_def g d(1))
qed

text \<open>
  C5, as the code has it. The PWM value is exactly \<open>max_value - 1\<close> whenever the
  effective rpm reaches \<open>rpm_max\<close> or the range is misconfigured
  (\<open>rpm_min \<ge> rpm_max\<close>). Inside the linear region
  (\<open>rpm_min < effective rpm < rpm_max\<close>) the value is defined and monotonically
  non-decreasing in the effective rpm, for a configuration the linear model fits. An
  effective rpm of zero gives \<open>off_value\<close> when \<open>0 \<le> rpm_min < rpm_max\<close>; and for a
  configuration with \<open>off_value < min_value < max_value\<close> that the linear model fits,
  \<open>off_value\<close> is returned only for an effective rpm of zero.
\<close>

theorem C5_pwm_value:
  "(f32_le (rpm_max s) (rpm_min s) \<or> f32_le (rpm_max s) (effective_rpm rpm ovr) \<longrightarrow>
       spindleComputePWMValue s pwm rpm ovr = Some (max_value pwm - 1)) \<and>
   (interpolation_fits s pwm \<and> f32_lt (rpm_min s) (effective_rpm rpm ovr) \<and>
      f32_le (effective_rpm rpm ovr) (effective_rpm rpm' ovr') \<and>
      f32_lt (effective_rpm rpm' ovr') (rpm_max s) \<longrightarrow>
       (\<exists>v v'. spindleComputePWMValue s pwm rpm ovr = Some v \<and>
                spindleComputePWMValue s pwm rpm' ovr' = Some v' \<and> v \<le> v')) \<and>
   (f32_le (Finite 0) (rpm_min s) \<and> f32_lt (rpm_min s) (rpm_max s) \<and>
      effective_rpm rpm ovr = Finite 0 \<longrightarrow>
       spindleComputePWMValue s pwm rpm ovr = Some (off_value pwm)) \<and>
   (f32_lt (rpm_min s) (rpm_max s) \<and> interpolation_fits s pwm \<and>
      off_value pwm < min_value pwm \<and> min_value pwm < max_value pwm \<and>
      spindleComputePWMValue s pwm rpm ovr = Some (off_value pwm) \<longrightarrow>
       effective_rpm rpm ovr = Finite 0)"
  unfolding spindleComputePWMValue_def
  using pwm_high [of s "effective_rpm rpm ovr" pwm]
    pwm_linear_mono [of s pwm "effective_rpm rpm ovr" "effective_rpm rpm' ovr'"]
    pwm_zero [of s pwm]
    pwm_off_only_at_zero [of s pwm "effective_rpm rpm ovr"]
  by auto

lemma scenario_fits: "interpolation_fits scenario_settings scenario_pwm"
proof -
  have "f32_round (23000 * (11087551 / 268435456)) = Finite (15564799 / 16384)"
    by (simp add: f32_eval)
  then show ?thesis
    by (simp add: interpolation_fits_def scenario_fields scenario_pwm_fields f32_round_examples)
qed

lemma scenario_values:
  "spindleComputePWMValue scenario_settings scenario_pwm (Finite 5000) 100 = Some 215"
  "spindleComputePWMValue scenario_settings scenario_pwm (Finite 12000) 100 = Some 504"
proof -
  have "f32_round (4000 * (11087551 / 268435456)) = Finite (10827687 / 65536)"
    "f32_round (11000 * (11087551 / 268435456)) = Finite (14888069 / 32768)"
    by (simp_all add: f32_eval)
  then show
    "spindleComputePWMValue scenario_settings scenario_pwm (Finite 5000) 100 = Some 215"
    "spindleComputePWMValue scenario_settings scenario_pwm (Finite 12000) 100 = Some 504"
    by (simp_all add: spindleComputePWMValue_def pwm_of_effective_rpm_def effective_rpm_examples
        scenario_fields scenario_pwm_fields f32_round_examples)
qed

theorem C5_pwm_value_witness:
  "settings_changed scenario_settings = Some scenario_pwm \<and>
   interpolation_fits scenario_settings scenario_pwm \<and>
   spindleComputePWMValue scenario_settings scenario_pwm (Finite 30000) 100 = Some 999 \<and>
   (\<exists>v v'. spindleComputePWMValue scenario_settings scenario_pwm (Finite 5000) 100 = Some v \<and>
      spindleComputePWMValue scenario_settings scenario_pwm (Finite 12000) 100 = Some v' \<and>
      v \<le> v') \<and>
   spindleComputePWMValue scenario_settings scenario_pwm (Finite 5000) 100 = Some 215 \<and>
   spindleComputePWMValue scenario_settings scenario_pwm (Finite 12000) 100 = Some 504 \<and>
   effective_rpm (Finite 0) 100 = Finite 0 \<and>
   spindleComputePWMValue scenario_settings scenario_pwm (Finite 0) 100 = Some 0"
  using
    C5_pwm_value [of scenario_settings "Finite 30000" 100 scenario_pwm]
    C5_pwm_value [of scenario_settings "Finite 5000" 100 scenario_pwm "Finite 12000" 100]
    C5_pwm_value [of scenario_settings "Finite 0" 100 scenario_pwm]
  by (simp add: scenario_fields scenario_pwm_fields scenario_fits effective_rpm_examples
      settings_changed_scenario scenario_values)

lemma zero_min_fields:
  "rpm_min zero_min_settings = Finite 0" "rpm_max zero_min_settings = Finite 1000"
  "spindle_pwm_freq zero_min_settings = Finite 3125"
  "spindle_pwm_off_value zero_min_settings = Finite 0"
  "spindle_pwm_min_value zero_min_settings = Finite 0"
  "spindle_pwm_max_value zero_min_settings = Finite 100"
  by (simp_all add: zero_min_settings_def)

lemma swapped_range_fields:
  "rpm_min swapped_range_settings = Finite 2000" "rpm_max swapped_range_settings = Finite 1000"
  "spindle_pwm_freq swapped_range_settings = Finite 3125"
  "spindle_pwm_off_value swapped_range_settings = Finite 0"
  "spindle_pwm_min_value swapped_range_settings = Finite 5"
  "spindle_pwm_max_value swapped_range_settings = Finite 100"
  by (simp_all add: swapped_range_settings_def)

lemma swapped_percent_fields:
  "rpm_min swapped_percent_settings = Finite 0" "rpm_max swapped_percent_settings = Finite 1000"
  "spindle_pwm_freq swapped_percent_settings = Finite 3125"
  "spindle_pwm_off_value swapped_percent_settings = Finite 0"
  "spindle_pwm_min_value swapped_percent_settings = Finite 100"
  "spindle_pwm_max_value swapped_percent_settings = Finite 5"
  by (simp_all add: swapped_percent_settings_def)

lemma wide_range_fields:
  "rpm_min wide_range_settings = Finite (- (2 ^ 127))"
  "rpm_max wide_range_settings = Finite (2 ^ 127)"
  "spindle_pwm_freq wide_range_settings = Finite 3125"
  "spindle_pwm_off_value wide_range_settings = Finite 0"
  "spindle_pwm_min_value wide_range_settings = Finite 5"
  "spindle_pwm_max_value wide_range_settings = Finite 100"
  by (simp_all add: wide_range_settings_def)

lemma settings_changed_zero_min: "settings_changed zero_min_settings = Some zero_min_pwm"
proof -
  have "f32_round 1 = Finite 1"
    by (simp add: f32_eval)
  then show ?thesis
    by (simp add: settings_changed_def zero_min_fields zero_min_pwm_def period_3125
        percent_of_1000 f32_of_nat_examples f32_round_examples)
qed

lemma settings_changed_swapped_range:
  "settings_changed swapped_range_settings = Some swapped_range_pwm"
proof -
  have "f32_round (- 1000) = Finite (- 1000)"
    "f32_round (- (19 / 20)) = Finite (- (15938355 / 16777216))"
    by (simp_all add: f32_eval)
  then show ?thesis
    by (simp add: settings_changed_def swapped_range_fields swapped_range_pwm_def period_3125
        percent_of_1000 f32_of_nat_examples f32_round_examples)
qed

lemma settings_changed_swapped_percent:
  "settings_changed swapped_percent_settings = Some swapped_percent_pwm"
proof -
  have "f32_round (32293 / 500) = Finite (1058177 / 16384)"
    by (simp add: f32_eval)
  then show ?thesis
    by (simp add: settings_changed_def swapped_percent_fields swapped_percent_pwm_def period_3125
        percent_of_1000 f32_of_nat_examples f32_round_examples)
qed

text \<open>
  "\<open>off_value\<close> if and only if the effective rpm is zero" fails in both directions. With
  \<open>rpm_min = 0\<close> and a minimum PWM percentage of 0, an effective rpm of one half lies in
  the linear region and yields \<open>off_value\<close>. With a misconfigured range, an effective rpm
  of zero yields \<open>max_value - 1\<close>, not \<open>off_value\<close>. And the value is not monotone for
  every configuration: with the PWM percentages in the wrong order the gradient is
  \<open>64586 / 1000\<close>, and inside the linear region the sum wraps around in the 16 bits of
  the PWM value between 999 and 999.5 rpm.
\<close>

theorem C5_off_value_iff_counterexample:
  "settings_changed zero_min_settings = Some zero_min_pwm \<and>
   effective_rpm (Finite (1 / 2)) 100 \<noteq> Finite 0 \<and>
   spindleComputePWMValue zero_min_settings zero_min_pwm (Finite (1 / 2)) 100
     = Some (off_value zero_min_pwm) \<and>
   settings_changed swapped_range_settings = Some swapped_range_pwm \<and>
   effective_rpm (Finite 0) 100 = Finite 0 \<and>
   spindleComputePWMValue swapped_range_settings swapped_range_pwm (Finite 0) 100
     \<noteq> Some (off_value swapped_range_pwm) \<and>
   settings_changed swapped_percent_settings = Some swapped_percent_pwm \<and>
   f32_lt (rpm_min swapped_percent_settings) (effective_rpm (Finite 999) 100) \<and>
   f32_le (effective_rpm (Finite 999) 100) (effective_rpm (Finite (1999 / 2)) 100) \<and>
   f32_lt (effective_rpm (Finite (1999 / 2)) 100) (rpm_max swapped_percent_settings) \<and>
   spindleComputePWMValue swapped_percent_settings swapped_percent_pwm (Finite 999) 100
     = Some 49 \<and>
   spindleComputePWMValue swapped_percent_settings swapped_percent_pwm (Finite (1999 / 2)) 100
     = Some 17"
proof -
  have 1: "spindleComputePWMValue zero_min_settings zero_min_pwm (Finite (1 / 2)) 100 = Some 0"
    by (simp add: spindleComputePWMValue_def pwm_of_effective_rpm_def effective_rpm_examples
        zero_min_pwm_def zero_min_fields f32_round_examples)
  have 2: "spindleComputePWMValue swapped_range_settings swapped_range_pwm (Finite 0) 100
             = Some 999"
    by (simp add: spindleComputePWMValue_def pwm_of_effective_rpm_def effective_rpm_examples
        swapped_range_pwm_def swapped_range_fields)
  have r: "f32_round (999 * (1058177 / 16384)) = Finite (8258741 / 128)"
    "f32_round (1999 / 2 * (1058177 / 16384)) = Finite (16525749 / 256)"
    by (simp_all add: f32_eval)
  have 3: "spindleComputePWMValue swapped_percent_settings swapped_percent_pwm (Finite 999) 100
             = Some 49"
    using r(1)
    by (simp add: spindleComputePWMValue_def pwm_of_effective_rpm_def effective_rpm_examples
        swapped_percent_pwm_def swapped_percent_fields f32_round_examples)
  have 4: "spindleComputePWMValue swapped_percent_settings swapped_percent_pwm
             (Finite (1999 / 2)) 100 = Some 17"
    using r(2)
    by (simp add: spindleComputePWMValue_def pwm_of_effective_rpm_def effective_rpm_examples
        swapped_percent_pwm_def swapped_percent_fields f32_round_examples)
  have off: "off_value zero_min_pwm = 0" "off_value swapped_range_pwm = 0"
    by (simp_all add: zero_min_pwm_def swapped_range_pwm_def)
  show ?thesis
    by (simp add: 1 2 3 4 off settings_changed_zero_min settings_changed_swapped_range
        settings_changed_swapped_percent effective_rpm_examples swapped_percent_fields)
qed


text \<open>
  Beyond the range of \<open>float\<close>: the width of the range from \<open>-2^127\<close> to \<open>2^127\<close>
  overflows to infinity, so the derived gradient is zero and the linear branch returns
  \<open>min_value\<close> while \<open>rpm - rpm_min\<close> is finite. At \<open>2^127 - 2^103\<close> rpm, the largest
  \<open>float\<close> below \<open>rpm_max\<close>, that difference overflows too, the product of infinity and
  zero is a NaN, and its cast is undefined.
\<close>

lemma wide_range_overflow:
  "f32_sub (rpm_max wide_range_settings) (rpm_min wide_range_settings) = PInf"
  "settings_changed wide_range_settings = Some wide_range_pwm"
  "\<not> interpolation_fits wide_range_settings wide_range_pwm"
  "spindleComputePWMValue wide_range_settings wide_range_pwm (Finite 1000) 100 = Some 50"
  "spindleComputePWMValue wide_range_settings wide_range_pwm (Finite (2 ^ 127 - 2 ^ 103)) 100
     = None"
proof -
  have r: "f32_round (2 ^ 127 + 2 ^ 127) = PInf"
    "f32_round (1000 + 2 ^ 127) = Finite (2 ^ 127)"
    "f32_round (2 ^ 127 - 2 ^ 103) = Finite (2 ^ 127 - 2 ^ 103)"
    "f32_round (2 ^ 127 - 2 ^ 103 + 2 ^ 127) = PInf"
    by (simp_all add: f32_eval)
  show d: "f32_sub (rpm_max wide_range_settings) (rpm_min wide_range_settings) = PInf"
    using r(1) by (simp add: wide_range_fields)
  show "settings_changed wide_range_settings = Some wide_range_pwm"
    using d
    by (simp add: settings_changed_def wide_range_pwm_def period_3125 wide_range_fields(3-6)
        percent_of_1000 f32_of_nat_examples)
  show "\<not> interpolation_fits wide_range_settings wide_range_pwm"
    using d by (simp add: interpolation_fits_def wide_range_pwm_def)
  show "spindleComputePWMValue wide_range_settings wide_range_pwm (Finite 1000) 100 = Some 50"
    using r(2)
    by (simp add: spindleComputePWMValue_def pwm_of_effective_rpm_def effective_rpm_examples
        wide_range_fields wide_range_pwm_def f32_round_examples)
  show "spindleComputePWMValue wide_range_settings wide_range_pwm (Finite (2 ^ 127 - 2 ^ 103)) 100
     = None"
    using r(3,4)
    by (simp add: spindleComputePWMValue_def pwm_of_effective_rpm_def effective_rpm_100
        wide_range_fields wide_range_pwm_def)
qed
end
